theory Spec2Isabelle
  imports Main "HOL-Library.Sublist"
begin

section \<open>Go values, strings and the standard-library functions the package calls\<close>

text \<open>
  A Go \<^verbatim>\<open>string\<close> is a sequence of bytes: it is modelled as a \<^typ>\<open>string\<close>, one
  \<^typ>\<open>char\<close> per byte. A \<^verbatim>\<open>rune\<close> is a code point, a natural number here (none of
  the mappings below returns a negative rune).
\<close>

type_synonym rune = nat

definition RuneError :: rune where
  "RuneError = 0xFFFD"

definition RuneSelf :: nat where
  "RuneSelf = 0x80"

definition MaxRune :: rune where
  "MaxRune = 0x10FFFF"

definition MaxASCII :: rune where
  "MaxASCII = 0x7F"

text \<open>
  \<^verbatim>\<open>utf8.first\<close> and \<^verbatim>\<open>utf8.acceptRanges\<close>: for a leading byte, the length of the
  sequence and the range the second byte must lie in; \<open>None\<close> for a byte that cannot
  start a sequence.
\<close>

definition first :: "nat \<Rightarrow> (nat \<times> nat \<times> nat) option" where
  "first p0 =
     (if p0 < 0xC2 then None
      else if p0 \<le> 0xDF then Some (2, 0x80, 0xBF)
      else if p0 = 0xE0 then Some (3, 0xA0, 0xBF)
      else if p0 \<le> 0xEC then Some (3, 0x80, 0xBF)
      else if p0 = 0xED then Some (3, 0x80, 0x9F)
      else if p0 \<le> 0xEF then Some (3, 0x80, 0xBF)
      else if p0 = 0xF0 then Some (4, 0x90, 0xBF)
      else if p0 \<le> 0xF3 then Some (4, 0x80, 0xBF)
      else if p0 = 0xF4 then Some (4, 0x80, 0x8F)
      else None)"

text \<open>
  \<^verbatim>\<open>utf8.DecodeRuneInString\<close>: the first rune of the string and its width in bytes;
  \<open>(RuneError, 0)\<close> for the empty string and \<open>(RuneError, 1)\<close> for a byte sequence that
  is not valid UTF-8. The masks and shifts of the library are written as \<open>mod\<close> and
  multiplication.
\<close>

definition DecodeRuneInString :: "string \<Rightarrow> rune \<times> nat" where
  "DecodeRuneInString s =
     (case map of_char s of
        [] \<Rightarrow> (RuneError, 0)
      | p0 # p \<Rightarrow>
          if p0 < RuneSelf then (p0, 1)
          else
            (case first p0 of
               None \<Rightarrow> (RuneError, 1)
             | Some (sz, lo, hi) \<Rightarrow>
                 if length s < sz then (RuneError, 1)
                 else
                   let b1 = p ! 0 in
                   if b1 < lo \<or> hi < b1 then (RuneError, 1)
                   else if sz \<le> 2 then ((p0 mod 32) * 64 + b1 mod 64, 2)
                   else
                     let b2 = p ! 1 in
                     if b2 < 0x80 \<or> 0xBF < b2 then (RuneError, 1)
                     else if sz \<le> 3 then
                       ((p0 mod 16) * 4096 + (b1 mod 64) * 64 + b2 mod 64, 3)
                     else
                       let b3 = p ! 2 in
                       if b3 < 0x80 \<or> 0xBF < b3 then (RuneError, 1)
                       else
                         ((p0 mod 8) * 262144 + (b1 mod 64) * 4096
                            + (b2 mod 64) * 64 + b3 mod 64, 4)))"

text \<open>\<^verbatim>\<open>utf8.EncodeRune\<close>: a rune out of range or a surrogate is written as \<open>RuneError\<close>.\<close>

definition EncodeRune :: "rune \<Rightarrow> string" where
  "EncodeRune r =
     map char_of
       (if r \<le> 0x7F then [r]
        else if r \<le> 0x7FF then [0xC0 + r div 64, 0x80 + r mod 64]
        else if MaxRune < r \<or> (0xD800 \<le> r \<and> r \<le> 0xDFFF) then [0xEF, 0xBF, 0xBD]
        else if r \<le> 0xFFFF then
          [0xE0 + r div 4096, 0x80 + (r div 64) mod 64, 0x80 + r mod 64]
        else
          [0xF0 + r div 262144, 0x80 + (r div 4096) mod 64,
           0x80 + (r div 64) mod 64, 0x80 + r mod 64])"

text \<open>The runes a \<^verbatim>\<open>for _, c := range s\<close> loop sees.\<close>

function runes :: "string \<Rightarrow> rune list" where
  "runes s =
     (if s = [] then []
      else (case DecodeRuneInString s of (c, width) \<Rightarrow> c # runes (drop width s)))"
  by pat_completeness auto
termination
  by (relation "measure length")
    (auto simp: DecodeRuneInString_def Let_def neq_Nil_conv less_Suc_eq_le
      split: if_splits option.splits prod.splits)

declare runes.simps [simp del]

text \<open>
  \<^verbatim>\<open>strings.Map\<close>: the bytes of the string are kept up to the first rune that the
  mapping changes or that is an invalid byte; from there on every rune is mapped and
  written with \<^verbatim>\<open>WriteRune\<close>, so that an invalid byte comes out as U+FFFD.
\<close>

function strings_Map :: "(rune \<Rightarrow> rune) \<Rightarrow> string \<Rightarrow> string" where
  "strings_Map mapping s =
     (if s = [] then []
      else
        (case DecodeRuneInString s of
           (c, width) \<Rightarrow>
             if mapping c = c \<and> (c \<noteq> RuneError \<or> width \<noteq> 1)
             then take width s @ strings_Map mapping (drop width s)
             else concat (map (\<lambda>c. EncodeRune (mapping c)) (runes s))))"
  by pat_completeness auto
termination
  by (relation "measure (\<lambda>(mapping, s). length s)")
    (auto simp: DecodeRuneInString_def Let_def neq_Nil_conv less_Suc_eq_le
      split: if_splits option.splits prod.splits)

declare strings_Map.simps [simp del]

text \<open>
  The case tables of package \<^verbatim>\<open>unicode\<close> (\<^verbatim>\<open>unicode.CaseRanges\<close>) are data of the
  Go distribution: \<open>to_UpperCase U r\<close> stands for \<^verbatim>\<open>unicode.To(unicode.UpperCase, r)\<close>
  and \<open>to_LowerCase U r\<close> for \<^verbatim>\<open>unicode.To(unicode.LowerCase, r)\<close>. They are consulted
  for runes above \<open>MaxASCII\<close> only.
\<close>

record CaseTables =
  to_UpperCase :: "rune \<Rightarrow> rune"
  to_LowerCase :: "rune \<Rightarrow> rune"

definition unicode_ToUpper :: "CaseTables \<Rightarrow> rune \<Rightarrow> rune" where
  "unicode_ToUpper U r =
     (if r \<le> MaxASCII then (if 0x61 \<le> r \<and> r \<le> 0x7A then r - (0x61 - 0x41) else r)
      else to_UpperCase U r)"

definition unicode_ToLower :: "CaseTables \<Rightarrow> rune \<Rightarrow> rune" where
  "unicode_ToLower U r =
     (if r \<le> MaxASCII then (if 0x41 \<le> r \<and> r \<le> 0x5A then r + (0x61 - 0x41) else r)
      else to_LowerCase U r)"

definition isASCII :: "string \<Rightarrow> bool" where
  "isASCII s = list_all (\<lambda>c. (of_char c :: nat) < RuneSelf) s"

text \<open>
  \<^verbatim>\<open>strings.ToUpper\<close> and \<^verbatim>\<open>strings.ToLower\<close>: a string of ASCII bytes is mapped byte
  by byte, any other string goes through \<^verbatim>\<open>strings.Map\<close> with the Unicode mapping.
\<close>

definition strings_ToUpper :: "CaseTables \<Rightarrow> string \<Rightarrow> string" where
  "strings_ToUpper U s =
     (if isASCII s then
        map (\<lambda>c. if 0x61 \<le> (of_char c :: nat) \<and> (of_char c :: nat) \<le> 0x7A
                 then char_of ((of_char c :: nat) - (0x61 - 0x41)) else c) s
      else strings_Map (unicode_ToUpper U) s)"

definition strings_ToLower :: "CaseTables \<Rightarrow> string \<Rightarrow> string" where
  "strings_ToLower U s =
     (if isASCII s then
        map (\<lambda>c. if 0x41 \<le> (of_char c :: nat) \<and> (of_char c :: nat) \<le> 0x5A
                 then char_of ((of_char c :: nat) + (0x61 - 0x41)) else c) s
      else strings_Map (unicode_ToLower U) s)"

text \<open>
  \<^verbatim>\<open>strings.Repeat\<close>, \<^verbatim>\<open>strings.Split\<close> with the empty separator (the library's
  \<^verbatim>\<open>explode\<close>: one string per UTF-8 sequence) and \<^verbatim>\<open>strings.Join\<close>.
\<close>

definition strings_Repeat :: "string \<Rightarrow> nat \<Rightarrow> string" where
  "strings_Repeat s count = concat (replicate count s)"

function explode :: "string \<Rightarrow> string list" where
  "explode s =
     (if s = [] then []
      else (case DecodeRuneInString s of (c, sz) \<Rightarrow> take sz s # explode (drop sz s)))"
  by pat_completeness auto
termination
  by (relation "measure length")
    (auto simp: DecodeRuneInString_def Let_def neq_Nil_conv less_Suc_eq_le
      split: if_splits option.splits prod.splits)

declare explode.simps [simp del]

fun strings_Join :: "string list \<Rightarrow> string \<Rightarrow> string" where
  "strings_Join [] sep = []"
| "strings_Join [e] sep = e"
| "strings_Join (e # es) sep = e @ sep @ strings_Join es sep"

text \<open>
  A value of type \<^verbatim>\<open>interface{}\<close>: the dynamic types the package distinguishes, and
  \<open>IOther T v\<close> for a value of any other type \<open>T\<close>, printed as \<open>v\<close>.
\<close>

datatype iface =
    IString string
  | IBytes string
  | IInt int
  | IBool bool
  | INil
  | IOther string string

text \<open>
  Errors. Each \<^verbatim>\<open>fmt.Errorf\<close> call of the package is a constructor holding the
  arguments of the call; \<open>Driver m\<close> is an error of the query executor with message
  \<open>m\<close>, and \<open>Scan_error_on_column\<close> is the wrapper \<^verbatim>\<open>database/sql\<close> puts around the error
  of a \<^verbatim>\<open>Scanner\<close>.
\<close>

datatype error =
    Driver string
  | Errorf_invalid string iface
  | Errorf_unsupported string string
  | Errorf_unknown_database string
  | Errorf_could_not_get string error
  | Scan_error_on_column nat string error

text \<open>
  The message of an error (\<^verbatim>\<open>err.Error()\<close>). The verbs \<^verbatim>\<open>%T\<close>, \<^verbatim>\<open>%v\<close>, \<^verbatim>\<open>%q\<close> and
  \<^verbatim>\<open>%d\<close> are formatted by package \<^verbatim>\<open>fmt\<close>; \<^verbatim>\<open>%s\<close> of a string is the string.
\<close>

record Fmt =
  verb_T :: "iface \<Rightarrow> string"
  verb_v :: "iface \<Rightarrow> string"
  verb_q :: "string \<Rightarrow> string"
  verb_d :: "nat \<Rightarrow> string"

fun Error :: "Fmt \<Rightarrow> error \<Rightarrow> string" where
  "Error F (Driver m) = m"
| "Error F (Errorf_invalid T src) =
     ''invalid '' @ T @ '': '' @ verb_T F src @ '' '' @ verb_v F src"
| "Error F (Errorf_unsupported T s) = ''unsupported '' @ T @ '': '' @ verb_q F s"
| "Error F (Errorf_unknown_database n) = ''unknown database '' @ [CHR 0x27] @ n @ [CHR 0x27]"
| "Error F (Errorf_could_not_get what err) = ''could not get '' @ what @ '': '' @ Error F err"
| "Error F (Scan_error_on_column i n err) =
     ''sql: Scan error on column index '' @ verb_d F i @ '', name '' @ verb_q F n
       @ '': '' @ Error F err"

section \<open>The package\<close>

subsection \<open>Helpers\<close>

text \<open>\<^verbatim>\<open>sqlower\<close>: \<^verbatim>\<open>strings.Map\<close> over the runes, lowering \<open>'A'\<close> to \<open>'Z'\<close>.\<close>

definition sqlower :: "string \<Rightarrow> string" where
  "sqlower s =
     strings_Map (\<lambda>r. if 0x41 \<le> r \<and> r \<le> 0x5A then 0x61 + r - 0x41 else r) s"

fun toString :: "iface \<Rightarrow> string \<times> bool" where
  "toString (IString s) = (s, True)"
| "toString (IBytes s) = (s, True)"
| "toString v = ([], False)"

subsection \<open>ForeignKeyAction and IndexType\<close>

datatype ForeignKeyAction =
    ForeignKeyActionNone
  | ForeignKeyActionRestrict
  | ForeignKeyActionSetNull
  | ForeignKeyActionSetDefault
  | ForeignKeyActionCascade

text \<open>
  \<^verbatim>\<open>(*ForeignKeyAction).Scan\<close>. The receiver is a pointer: the function takes the value
  \<open>v\<close> stored behind it and returns the error (\<open>None\<close> for \<^verbatim>\<open>nil\<close>) together with the
  value stored behind it afterwards.
\<close>

definition ForeignKeyAction_Scan ::
    "CaseTables \<Rightarrow> ForeignKeyAction \<Rightarrow> iface \<Rightarrow> error option \<times> ForeignKeyAction" where
  "ForeignKeyAction_Scan U v src =
     (case toString src of
        (s, ok) \<Rightarrow>
          if \<not> ok then (Some (Errorf_invalid ''ForeignKeyAction'' src), v)
          else
            let u = strings_ToUpper U s in
            if u = ''NO ACTION'' then (None, ForeignKeyActionNone)
            else if u = ''RESTRICT'' then (None, ForeignKeyActionRestrict)
            else if u = ''SET NULL'' then (None, ForeignKeyActionSetNull)
            else if u = ''SET DEFAULT'' then (None, ForeignKeyActionSetDefault)
            else if u = ''CASCADE'' then (None, ForeignKeyActionCascade)
            else (Some (Errorf_unsupported ''ForeignKeyAction'' s), v))"

datatype IndexType =
    IndexTypeNormal
  | IndexTypeUnique
  | IndexTypePrimaryKey

definition IndexType_Scan ::
    "CaseTables \<Rightarrow> IndexType \<Rightarrow> iface \<Rightarrow> error option \<times> IndexType" where
  "IndexType_Scan U t src =
     (case toString src of
        (s, ok) \<Rightarrow>
          if \<not> ok then (Some (Errorf_invalid ''IndexType'' src), t)
          else
            let l = strings_ToLower U s in
            if l = ''c'' then (None, IndexTypeNormal)
            else if l = ''u'' then (None, IndexTypeUnique)
            else if l = ''pk'' then (None, IndexTypePrimaryKey)
            else (Some (Errorf_unsupported ''IndexType'' s), t))"

subsection \<open>Schema and the query executor\<close>

record Schema =
  name :: string

definition DB :: "string \<Rightarrow> Schema" where
  "DB n = \<lparr>name = n\<rparr>"

definition Temp :: Schema where
  "Temp = DB ''temp''"

definition noSchema :: Schema where
  "noSchema = \<lparr>name = []\<rparr>"

record Column =
  col_ID :: int
  col_Name :: string
  col_Type :: string
  col_NotNull :: bool
  col_Default :: "string option"
  col_PrimaryKey :: int

record ForeignKey =
  ID :: int
  ChildTable :: string
  ChildKey :: "string list"
  ParentTable :: string
  ParentKey :: "string option list"
  OnUpdate :: ForeignKeyAction
  OnDelete :: ForeignKeyAction

text \<open>
  The anonymous row struct of \<^verbatim>\<open>ForeignKeys\<close>. The executor delivers the two action
  columns as driver values (\<open>'a = iface\<close>); scanned, they are actions.
\<close>

record 'a fk_row =
  r_ID :: int
  r_Table :: string
  r_From :: string
  r_To :: "string option"
  r_OnUpdate :: 'a
  r_OnDelete :: 'a

record Index =
  Name :: string
  Type :: IndexType
  IsUnique :: bool
  IsPartial :: bool
  ColumnNames :: "string option list"

text \<open>The anonymous row struct of \<^verbatim>\<open>Indexes\<close>, with the origin column as \<open>'a\<close>.\<close>

record 'a index_row =
  r_Name :: string
  r_Type :: 'a
  r_Unique :: bool
  r_Partial :: bool
  r_ColumnName :: "string option"

record IndexColumn =
  ic_Name :: "string option"
  Rank :: int
  TableRank :: int
  Descending :: bool
  Collation :: string
  IsKey :: bool

definition TableRankRowID :: int where
  "TableRankRowID = - 1"

definition TableRankExpr :: int where
  "TableRankExpr = - 2"

text \<open>
  The query executor (\<^verbatim>\<open>*sql.DB\<close>) is the collaborator of the package: it is given SQL
  text and bound parameters and answers with an error or with rows. One field per
  destination type the package reads rows into; \<open>QueryRow_count\<close> is
  \<^verbatim>\<open>db.QueryRow(q, args...).Scan(&count)\<close>.
\<close>

type_synonym query = "string \<times> iface list"

record sql_DB =
  QueryRow_count :: "string \<Rightarrow> iface list \<Rightarrow> error + int"
  Query_strings :: "string \<Rightarrow> iface list \<Rightarrow> error + string list"
  Query_Column :: "string \<Rightarrow> iface list \<Rightarrow> error + Column list"
  Query_fk_row :: "string \<Rightarrow> iface list \<Rightarrow> error + iface fk_row list"
  Query_index_row :: "string \<Rightarrow> iface list \<Rightarrow> error + iface index_row list"
  Query_IndexColumn :: "string \<Rightarrow> iface list \<Rightarrow> error + IndexColumn list"

text \<open>Scanning the rows of a cursor in order; the first row that fails ends the scan.\<close>

fun scan_rows :: "('a \<Rightarrow> error + 'b) \<Rightarrow> 'a list \<Rightarrow> error + 'b list" where
  "scan_rows scan [] = Inr []"
| "scan_rows scan (r # rs) =
     (case scan r of
        Inl err \<Rightarrow> Inl err
      | Inr x \<Rightarrow> (case scan_rows scan rs of Inl err \<Rightarrow> Inl err | Inr xs \<Rightarrow> Inr (x # xs)))"

text \<open>
  Scanning one row of \<^verbatim>\<open>ForeignKeys\<close> and of \<^verbatim>\<open>Indexes\<close> into a fresh struct: the
  columns of a \<^verbatim>\<open>Scanner\<close> type go through the \<^verbatim>\<open>Scan\<close> methods above, in column order,
  starting from the zero value.
\<close>

definition scan_fk_row :: "CaseTables \<Rightarrow> iface fk_row \<Rightarrow> error + ForeignKeyAction fk_row" where
  "scan_fk_row U r =
     (case ForeignKeyAction_Scan U ForeignKeyActionNone (r_OnUpdate r) of
        (Some err, _) \<Rightarrow> Inl (Scan_error_on_column 4 ''on_update'' err)
      | (None, onUpdate) \<Rightarrow>
          (case ForeignKeyAction_Scan U ForeignKeyActionNone (r_OnDelete r) of
             (Some err, _) \<Rightarrow> Inl (Scan_error_on_column 5 ''on_delete'' err)
           | (None, onDelete) \<Rightarrow>
               Inr \<lparr>r_ID = r_ID r, r_Table = r_Table r, r_From = r_From r, r_To = r_To r,
                    r_OnUpdate = onUpdate, r_OnDelete = onDelete\<rparr>))"

definition scan_index_row :: "CaseTables \<Rightarrow> iface index_row \<Rightarrow> error + IndexType index_row" where
  "scan_index_row U r =
     (case IndexType_Scan U IndexTypeNormal (r_Type r) of
        (Some err, _) \<Rightarrow> Inl (Scan_error_on_column 1 ''origin'' err)
      | (None, typ) \<Rightarrow>
          Inr \<lparr>r_Name = r_Name r, r_Type = typ, r_Unique = r_Unique r,
               r_Partial = r_Partial r, r_ColumnName = r_ColumnName r\<rparr>)"

text \<open>
  Modelled from the spec: \<^verbatim>\<open>queryRows\<close> and \<^verbatim>\<open>queryStrings\<close> are functions of the
  package that are not in the source file. By the collaborator contract of the spec
  they hand the SQL text and the bound parameters to the executor and decode the rows
  of the cursor positionally into the typed fields of the destination slice; a failure
  of the executor or of a decode is the error returned, and a cursor without rows
  leaves the destination slice without elements.
\<close>

definition queryStrings :: "sql_DB \<Rightarrow> string \<Rightarrow> iface list \<Rightarrow> error + string list" where
  "queryStrings db q args = Query_strings db q args"

definition queryRows_Column :: "sql_DB \<Rightarrow> string \<Rightarrow> iface list \<Rightarrow> error + Column list" where
  "queryRows_Column db q args = Query_Column db q args"

definition queryRows_IndexColumn ::
    "sql_DB \<Rightarrow> string \<Rightarrow> iface list \<Rightarrow> error + IndexColumn list" where
  "queryRows_IndexColumn db q args = Query_IndexColumn db q args"

definition queryRows_fk_row ::
    "CaseTables \<Rightarrow> sql_DB \<Rightarrow> string \<Rightarrow> iface list \<Rightarrow> error + ForeignKeyAction fk_row list" where
  "queryRows_fk_row U db q args =
     (case Query_fk_row db q args of
        Inl err \<Rightarrow> Inl err
      | Inr rows \<Rightarrow> scan_rows (scan_fk_row U) rows)"

definition queryRows_index_row ::
    "CaseTables \<Rightarrow> sql_DB \<Rightarrow> string \<Rightarrow> iface list \<Rightarrow> error + IndexType index_row list" where
  "queryRows_index_row U db q args =
     (case Query_index_row db q args of
        Inl err \<Rightarrow> Inl err
      | Inr rows \<Rightarrow> scan_rows (scan_index_row U) rows)"

subsection \<open>Building the SQL text\<close>

definition placeholdersFor :: "iface list \<Rightarrow> string" where
  "placeholdersFor vals = strings_Join (explode (strings_Repeat ''?'' (length vals))) '', ''"

text \<open>
  The raw string literals of the source run over several lines: \<open>line2 t\<close> is a line
  break, two tabs and the text \<open>t\<close>, \<open>line3 t\<close> the same with three tabs. The SQL text
  of each operation is a definition of its own, named after the operation.
\<close>

definition line2 :: "string \<Rightarrow> string" where
  "line2 t = CHR 0x0A # CHR 0x09 # CHR 0x09 # t"

definition line3 :: "string \<Rightarrow> string" where
  "line3 t = CHR 0x0A # CHR 0x09 # CHR 0x09 # CHR 0x09 # t"

text \<open>
  Every operation returns the queries it has handed to the executor, in order, next to
  its result; the error of the pair \<^verbatim>\<open>(nil, err)\<close> is \<open>Inl err\<close>.
\<close>

subsection \<open>Columns\<close>

definition Columns_q :: "iface list \<Rightarrow> string" where
  \<open>Columns_q params =
     ''SELECT'' @ line3 ''cid,'' @ line3 ''name,'' @ line3 ''type,''
       @ line3 ''"notnull",'' @ line3 ''dflt_value,'' @ line3 ''pk''
       @ line2 ''FROM''
       @ line3 (''pragma_table_info('' @ placeholdersFor params @ '')'')
       @ line2 ''ORDER BY'' @ line3 ''cid''\<close>

definition Schema_Columns ::
    "Schema \<Rightarrow> sql_DB \<Rightarrow> string \<Rightarrow> query list \<times> (error + Column list)" where
  "Schema_Columns s db tableName =
     (let params = [IString tableName] @ (if name s \<noteq> [] then [IString (name s)] else []);
          q = Columns_q params
      in ([(q, params)],
          case queryRows_Column db q params of
            Inl err \<Rightarrow> Inl (Errorf_could_not_get (''columns for table '' @ tableName) err)
          | Inr columns \<Rightarrow> Inr columns))"

subsection \<open>ForeignKeys\<close>

text \<open>
  The loop of \<^verbatim>\<open>ForeignKeys\<close>. The pointer \<^verbatim>\<open>fk\<close> into the slice is the index of the
  element it points to (\<open>None\<close> for \<^verbatim>\<open>nil\<close>); it is set to the last element right
  after each \<^verbatim>\<open>append\<close> to the slice, so it never refers to an array the slice has left.
\<close>

fun ForeignKeys_loop ::
    "string \<Rightarrow> ForeignKeyAction fk_row list \<Rightarrow> nat option \<Rightarrow> ForeignKey list \<Rightarrow> ForeignKey list" where
  "ForeignKeys_loop tableName [] fk foreignKeys = foreignKeys"
| "ForeignKeys_loop tableName (r # rows) fk foreignKeys =
     (let (fk', foreignKeys') =
            (if (case fk of None \<Rightarrow> True | Some i \<Rightarrow> r_ID r \<noteq> ID (foreignKeys ! i)) then
               (length foreignKeys,
                foreignKeys @
                  [\<lparr>ID = r_ID r, ChildTable = tableName, ChildKey = [],
                    ParentTable = r_Table r, ParentKey = [],
                    OnUpdate = r_OnUpdate r, OnDelete = r_OnDelete r\<rparr>])
             else (the fk, foreignKeys));
          cur = foreignKeys' ! fk'
      in ForeignKeys_loop tableName rows (Some fk')
           (foreignKeys'[fk' := cur\<lparr>ChildKey := ChildKey cur @ [r_From r],
                                         ParentKey := ParentKey cur @ [r_To r]\<rparr>]))"

definition ForeignKeys_q :: "iface list \<Rightarrow> string" where
  \<open>ForeignKeys_q params =
     ''SELECT'' @ line3 ''id,'' @ line3 ''"table",'' @ line3 ''"from",''
       @ line3 ''"to",'' @ line3 ''on_update,'' @ line3 ''on_delete''
       @ line2 ''FROM''
       @ line3 (''pragma_foreign_key_list('' @ placeholdersFor params @ '')'')
       @ line2 ''ORDER BY'' @ line3 ''id, seq''\<close>

definition Schema_ForeignKeys ::
    "CaseTables \<Rightarrow> Schema \<Rightarrow> sql_DB \<Rightarrow> string \<Rightarrow> query list \<times> (error + ForeignKey list)" where
  "Schema_ForeignKeys U s db tableName =
     (let params = [IString tableName] @ (if name s \<noteq> [] then [IString (name s)] else []);
          q = ForeignKeys_q params
      in ([(q, params)],
          case queryRows_fk_row U db q params of
            Inl err \<Rightarrow> Inl (Errorf_could_not_get (''foreign keys for table '' @ tableName) err)
          | Inr rows \<Rightarrow> Inr (ForeignKeys_loop tableName rows None [])))"

subsection \<open>Indexes\<close>

fun Indexes_loop :: "IndexType index_row list \<Rightarrow> nat option \<Rightarrow> Index list \<Rightarrow> Index list" where
  "Indexes_loop [] idx indexes = indexes"
| "Indexes_loop (r # rows) idx indexes =
     (let (idx', indexes') =
            (if (case idx of None \<Rightarrow> True | Some i \<Rightarrow> r_Name r \<noteq> Name (indexes ! i)) then
               (length indexes,
                indexes @
                  [\<lparr>Name = r_Name r, Type = r_Type r, IsUnique = r_Unique r,
                    IsPartial = r_Partial r, ColumnNames = []\<rparr>])
             else (the idx, indexes));
          cur = indexes' ! idx'
      in Indexes_loop rows (Some idx')
           (indexes'[idx' := cur\<lparr>ColumnNames := ColumnNames cur @ [r_ColumnName r]\<rparr>]))"

definition Indexes_q :: "string \<Rightarrow> string" where
  \<open>Indexes_q placeholder =
     ''SELECT'' @ line3 ''t1.name,'' @ line3 ''t1.origin,'' @ line3 ''t1."unique",''
       @ line3 ''t1.partial,'' @ line3 ''t2.name''
       @ line2 ''FROM''
       @ line3 (''pragma_index_list(?'' @ placeholder @ '') t1'')
       @ line2 ''INNER JOIN''
       @ line3 (''pragma_index_info(t1.name'' @ placeholder @ '') t2'')
       @ line2 ''ORDER BY'' @ line3 ''t1.seq, t2.seqno''\<close>

definition Schema_Indexes ::
    "CaseTables \<Rightarrow> Schema \<Rightarrow> sql_DB \<Rightarrow> string \<Rightarrow> query list \<times> (error + Index list)" where
  "Schema_Indexes U s db tableName =
     (let placeholder = (if name s \<noteq> [] then '', ?'' else []);
          params = [IString tableName]
                     @ (if name s \<noteq> [] then [IString (name s), IString (name s)] else []);
          q = Indexes_q placeholder
      in ([(q, params)],
          case queryRows_index_row U db q params of
            Inl err \<Rightarrow> Inl (Errorf_could_not_get (''indexes for table '' @ tableName) err)
          | Inr rows \<Rightarrow> Inr (Indexes_loop rows None [])))"

subsection \<open>IndexColumns and IndexColumnsAux\<close>

definition indexColumns_q :: "iface list \<Rightarrow> string \<Rightarrow> string" where
  "indexColumns_q params whereClause =
     ''SELECT'' @ line3 ''name,'' @ line3 ''seqno,'' @ line3 ''cid,'' @ line3 ''desc,''
       @ line3 ''coll,'' @ line3 ''key''
       @ line2 ''FROM''
       @ line3 (''pragma_index_xinfo('' @ placeholdersFor params @ '')'')
       @ line2 ''WHERE'' @ line3 whereClause
       @ line2 ''ORDER BY'' @ line3 ''seqno''"

definition indexColumns ::
    "Schema \<Rightarrow> sql_DB \<Rightarrow> string \<Rightarrow> bool \<Rightarrow> query list \<times> (error + IndexColumn list)" where
  "indexColumns s db indexName includeAux =
     (let params = [IString indexName] @ (if name s \<noteq> [] then [IString (name s)] else []);
          whereClause = (if includeAux then ''1 = 1'' else ''key = 1'');
          q = indexColumns_q params whereClause
      in ([(q, params)],
          case queryRows_IndexColumn db q params of
            Inl err \<Rightarrow> Inl (Errorf_could_not_get (''columns for index '' @ indexName) err)
          | Inr columns \<Rightarrow> Inr columns))"

definition Schema_IndexColumns ::
    "Schema \<Rightarrow> sql_DB \<Rightarrow> string \<Rightarrow> query list \<times> (error + IndexColumn list)" where
  "Schema_IndexColumns s db indexName = indexColumns s db indexName False"

definition Schema_IndexColumnsAux ::
    "Schema \<Rightarrow> sql_DB \<Rightarrow> string \<Rightarrow> query list \<times> (error + IndexColumn list)" where
  "Schema_IndexColumnsAux s db indexName = indexColumns s db indexName True"

subsection \<open>Listing names\<close>

definition verify_q :: string where
  "verify_q = ''SELECT COUNT(*) FROM pragma_database_list WHERE LOWER(name) = ?''"

definition verify :: "Schema \<Rightarrow> sql_DB \<Rightarrow> query list \<times> error option" where
  "verify s db =
     (let q = verify_q; args = [IString (sqlower (name s))]
      in ([(q, args)],
          case QueryRow_count db q args of
            Inl err \<Rightarrow> Some err
          | Inr count \<Rightarrow>
              if count < 1 then Some (Errorf_unknown_database (name s)) else None))"

text \<open>The text \<^verbatim>\<open>fmt.Sprintf\<close> builds in \<^verbatim>\<open>masterTableNames\<close>.\<close>

definition masterTableNames_q :: "string \<Rightarrow> string" where
  "masterTableNames_q tableName =
     ''SELECT name FROM '' @ tableName @ '' WHERE type = ? ORDER BY name''"

text \<open>The tail of \<^verbatim>\<open>masterTableNames\<close>, from \<^verbatim>\<open>fmt.Sprintf\<close> on.\<close>

definition masterTableNames_query ::
    "sql_DB \<Rightarrow> string \<Rightarrow> string \<Rightarrow> query list \<times> (error + string list)" where
  "masterTableNames_query db typ tableName =
     (let q = masterTableNames_q tableName
      in ([(q, [IString typ])],
          case queryStrings db q [IString typ] of
            Inl err \<Rightarrow> Inl (Errorf_could_not_get (typ @ '' names'') err)
          | Inr names \<Rightarrow> Inr names))"

definition masterTableNames ::
    "CaseTables \<Rightarrow> Schema \<Rightarrow> sql_DB \<Rightarrow> string \<Rightarrow> query list \<times> (error + string list)" where
  "masterTableNames U s db typ =
     (let tableName = ''sqlite_master'' in
      if name s \<noteq> [] then
        if strings_ToLower U (name s) = ''temp'' then
          masterTableNames_query db typ ''sqlite_temp_master''
        else
          (case verify s db of
             (issued, Some err) \<Rightarrow> (issued, Inl (Errorf_could_not_get (typ @ '' names'') err))
           | (issued, None) \<Rightarrow>
               (case masterTableNames_query db typ (name s @ ''.'' @ tableName) of
                  (issued', res) \<Rightarrow> (issued @ issued', res)))
      else masterTableNames_query db typ tableName)"

definition Schema_TableNames ::
    "CaseTables \<Rightarrow> Schema \<Rightarrow> sql_DB \<Rightarrow> query list \<times> (error + string list)" where
  "Schema_TableNames U s db = masterTableNames U s db ''table''"

definition Schema_ViewNames ::
    "CaseTables \<Rightarrow> Schema \<Rightarrow> sql_DB \<Rightarrow> query list \<times> (error + string list)" where
  "Schema_ViewNames U s db = masterTableNames U s db ''view''"

definition Schema_TriggerNames ::
    "CaseTables \<Rightarrow> Schema \<Rightarrow> sql_DB \<Rightarrow> query list \<times> (error + string list)" where
  "Schema_TriggerNames U s db = masterTableNames U s db ''trigger''"

definition Schema_IndexNames ::
    "CaseTables \<Rightarrow> Schema \<Rightarrow> sql_DB \<Rightarrow> query list \<times> (error + string list)" where
  "Schema_IndexNames U s db = masterTableNames U s db ''index''"

text \<open>The four name-listing methods, each with the object type it asks for.\<close>

definition name_listing_operations ::
    "((CaseTables \<Rightarrow> Schema \<Rightarrow> sql_DB \<Rightarrow> query list \<times> (error + string list)) \<times> string) list" where
  "name_listing_operations =
     [(Schema_TableNames, ''table''), (Schema_ViewNames, ''view''),
      (Schema_TriggerNames, ''trigger''), (Schema_IndexNames, ''index'')]"

section \<open>Notions of the specification\<close>

text \<open>
  ASCII-only case folding, as the specification words it and as the engine's \<^verbatim>\<open>LOWER\<close>
  does it: the bytes \<open>'A'\<close> to \<open>'Z'\<close> are mapped to lower case, every other byte is left
  untouched.
\<close>

definition ascii_lower :: "string \<Rightarrow> string" where
  "ascii_lower s =
     map (\<lambda>c. if 0x41 \<le> (of_char c :: nat) \<and> (of_char c :: nat) \<le> 0x5A
              then char_of ((of_char c :: nat) + 0x20) else c) s"

text \<open>
  The strings that are valid UTF-8: a \<^verbatim>\<open>range\<close> loop over one meets no byte that decodes
  as \<open>(RuneError, 1)\<close>.
\<close>

function valid_utf8 :: "string \<Rightarrow> bool" where
  "valid_utf8 s =
     (if s = [] then True
      else (case DecodeRuneInString s of
              (c, width) \<Rightarrow> (c \<noteq> RuneError \<or> width \<noteq> 1) \<and> valid_utf8 (drop width s)))"
  by pat_completeness auto
termination
  by (relation "measure length")
    (auto simp: DecodeRuneInString_def Let_def neq_Nil_conv less_Suc_eq_le
      split: if_splits option.splits prod.splits)

declare valid_utf8.simps [simp del]

text \<open>
  A case table maps no rune above \<open>MaxASCII\<close> to a byte of the ASCII string \<open>lit\<close>. Go's
  tables map exactly four runes above \<open>MaxASCII\<close> to ASCII letters: two to the upper-case
  letters \<open>S\<close> and \<open>I\<close>, two to the lower-case letters \<open>k\<close> and \<open>i\<close>.
\<close>

definition no_ascii_image :: "(rune \<Rightarrow> rune) \<Rightarrow> string \<Rightarrow> bool" where
  "no_ascii_image tab lit = (\<forall>r. MaxASCII < r \<longrightarrow> tab r \<notin> of_char ` set lit)"

text \<open>The recognized literals of the two enumerations, with the value each stands for.\<close>

definition fk_literals :: "(string \<times> ForeignKeyAction) list" where
  "fk_literals =
     [(''NO ACTION'', ForeignKeyActionNone), (''RESTRICT'', ForeignKeyActionRestrict),
      (''SET NULL'', ForeignKeyActionSetNull), (''SET DEFAULT'', ForeignKeyActionSetDefault),
      (''CASCADE'', ForeignKeyActionCascade)]"

definition index_literals :: "(string \<times> IndexType) list" where
  "index_literals =
     [(''c'', IndexTypeNormal), (''u'', IndexTypeUnique), (''pk'', IndexTypePrimaryKey)]"

text \<open>
  Matching a literal under ASCII-only case folding: the content and the literal are
  equal once both are folded with \<open>ascii_lower\<close>.
\<close>

definition ascii_match :: "(string \<times> 'a) list \<Rightarrow> string \<Rightarrow> 'a option" where
  "ascii_match literals s = map_of (map (\<lambda>(l, a). (ascii_lower l, a)) literals) (ascii_lower s)"

text \<open>
  The engine's answer to \<^verbatim>\<open>SELECT COUNT(*) FROM pragma_database_list WHERE LOWER(name) = ?\<close>
  when the databases \<open>attached\<close> are attached and the parameter is bound to \<open>p\<close>.
\<close>

definition database_list_count :: "string list \<Rightarrow> string \<Rightarrow> int" where
  "database_list_count attached p = int (length (filter (\<lambda>n. ascii_lower n = p) attached))"

text \<open>
  The maximal runs of consecutive rows with equal group key: a run starts at a row and
  takes the rows after it for as long as they have the key of that row.
\<close>

function runs :: "('a \<Rightarrow> 'k) \<Rightarrow> 'a list \<Rightarrow> 'a list list" where
  "runs key [] = []"
| "runs key (x # xs) =
     (x # takeWhile (\<lambda>y. key y = key x) xs) # runs key (dropWhile (\<lambda>y. key y = key x) xs)"
  by pat_completeness auto
termination
  by (relation "measure (\<lambda>(key, xs). length xs)")
    (auto simp: less_Suc_eq_le length_dropWhile_le)

text \<open>Neighbouring groups differ in their key.\<close>

definition neighbours_differ :: "('a \<Rightarrow> 'k) \<Rightarrow> 'a list list \<Rightarrow> bool" where
  "neighbours_differ key gs = list_all (\<lambda>(g, h). key (last g) \<noteq> key (hd h)) (zip gs (tl gs))"

text \<open>The record a run of rows is folded into, by the words of the specification.\<close>

definition ForeignKey_of_run :: "string \<Rightarrow> ForeignKeyAction fk_row list \<Rightarrow> ForeignKey" where
  "ForeignKey_of_run tableName g =
     \<lparr>ID = r_ID (hd g), ChildTable = tableName, ChildKey = map r_From g,
      ParentTable = r_Table (hd g), ParentKey = map r_To g,
      OnUpdate = r_OnUpdate (hd g), OnDelete = r_OnDelete (hd g)\<rparr>"

definition Index_of_run :: "IndexType index_row list \<Rightarrow> Index" where
  "Index_of_run g =
     \<lparr>Name = r_Name (hd g), Type = r_Type (hd g), IsUnique = r_Unique (hd g),
      IsPartial = r_Partial (hd g), ColumnNames = map r_ColumnName g\<rparr>"

text \<open>
  Modelled from the spec: the engine's answer to the query of \<^verbatim>\<open>indexColumns\<close> for an
  index whose \<^verbatim>\<open>pragma_index_xinfo\<close> entries are \<open>xinfo\<close>. The clause \<^verbatim>\<open>key = 1\<close> keeps the
  entries flagged as keys, the clause \<^verbatim>\<open>1 = 1\<close> keeps every entry, and the entries kept
  are ordered by rank.
\<close>

definition xinfo_answer :: "string \<Rightarrow> IndexColumn list \<Rightarrow> IndexColumn list" where
  "xinfo_answer whereClause xinfo =
     sort_key Rank
       (filter (\<lambda>c. whereClause = ''1 = 1'' \<or> (whereClause = ''key = 1'' \<and> IsKey c)) xinfo)"

text \<open>Every entry flagged as a key comes before every auxiliary entry.\<close>

definition keys_first :: "IndexColumn list \<Rightarrow> bool" where
  "keys_first cs = (cs = filter IsKey cs @ filter (\<lambda>c. \<not> IsKey c) cs)"

section \<open>Example values\<close>

text \<open>
  Four entries of Go's \<^verbatim>\<open>unicode.CaseRanges\<close>, the ones whose image is an ASCII letter:
  U+017F (long s) has upper case \<open>S\<close>, U+0131 (dotless i) has upper case \<open>I\<close>,
  U+212A (Kelvin sign) has lower case \<open>k\<close> and U+0130 (I with dot above) has lower case
  \<open>i\<close>. Every other rune is left as it is here.
\<close>

definition go_case_excerpt :: CaseTables where
  "go_case_excerpt =
     \<lparr>to_UpperCase = (\<lambda>r. if r = 0x17F then 0x53 else if r = 0x131 then 0x49 else r),
      to_LowerCase = (\<lambda>r. if r = 0x212A then 0x6B else if r = 0x130 then 0x69 else r)\<rparr>"

definition example_fk_rows :: "iface fk_row list" where
  "example_fk_rows =
     [\<lparr>r_ID = 0, r_Table = ''parent'', r_From = ''a'', r_To = Some ''x'',
       r_OnUpdate = IString ''CASCADE'', r_OnDelete = IBytes ''no action''\<rparr>,
      \<lparr>r_ID = 0, r_Table = ''parent'', r_From = ''b'', r_To = Some ''y'',
       r_OnUpdate = IString ''CASCADE'', r_OnDelete = IBytes ''no action''\<rparr>,
      \<lparr>r_ID = 1, r_Table = ''other'', r_From = ''c'', r_To = None,
       r_OnUpdate = IString ''Set Null'', r_OnDelete = IString ''RESTRICT''\<rparr>]"

definition example_index_rows :: "iface index_row list" where
  "example_index_rows =
     [\<lparr>r_Name = ''idx_ab'', r_Type = IString ''c'', r_Unique = False, r_Partial = False,
       r_ColumnName = Some ''a''\<rparr>,
      \<lparr>r_Name = ''idx_ab'', r_Type = IString ''c'', r_Unique = False, r_Partial = False,
       r_ColumnName = None\<rparr>,
      \<lparr>r_Name = ''sqlite_autoindex_t_1'', r_Type = IBytes ''PK'', r_Unique = True,
       r_Partial = False, r_ColumnName = Some ''id''\<rparr>]"

definition example_xinfo :: "IndexColumn list" where
  "example_xinfo =
     [\<lparr>ic_Name = None, Rank = 2, TableRank = TableRankRowID, Descending = False,
       Collation = ''BINARY'', IsKey = False\<rparr>,
      \<lparr>ic_Name = Some ''a'', Rank = 0, TableRank = 3, Descending = False,
       Collation = ''BINARY'', IsKey = True\<rparr>,
      \<lparr>ic_Name = Some ''b'', Rank = 1, TableRank = 1, Descending = True,
       Collation = ''NOCASE'', IsKey = True\<rparr>]"

definition example_scanned_fk_rows :: "ForeignKeyAction fk_row list" where
  "example_scanned_fk_rows =
     [\<lparr>r_ID = 0, r_Table = ''parent'', r_From = ''a'', r_To = Some ''x'',
       r_OnUpdate = ForeignKeyActionCascade, r_OnDelete = ForeignKeyActionNone\<rparr>,
      \<lparr>r_ID = 0, r_Table = ''parent'', r_From = ''b'', r_To = Some ''y'',
       r_OnUpdate = ForeignKeyActionCascade, r_OnDelete = ForeignKeyActionNone\<rparr>,
      \<lparr>r_ID = 1, r_Table = ''other'', r_From = ''c'', r_To = None,
       r_OnUpdate = ForeignKeyActionSetNull, r_OnDelete = ForeignKeyActionRestrict\<rparr>]"

definition example_fks :: "ForeignKey list" where
  "example_fks =
     [\<lparr>ID = 0, ChildTable = ''child'', ChildKey = [''a'', ''b''], ParentTable = ''parent'',
       ParentKey = [Some ''x'', Some ''y''], OnUpdate = ForeignKeyActionCascade,
       OnDelete = ForeignKeyActionNone\<rparr>,
      \<lparr>ID = 1, ChildTable = ''child'', ChildKey = [''c''], ParentTable = ''other'',
       ParentKey = [None], OnUpdate = ForeignKeyActionSetNull,
       OnDelete = ForeignKeyActionRestrict\<rparr>]"

definition example_scanned_index_rows :: "IndexType index_row list" where
  "example_scanned_index_rows =
     [\<lparr>r_Name = ''idx_ab'', r_Type = IndexTypeNormal, r_Unique = False, r_Partial = False,
       r_ColumnName = Some ''a''\<rparr>,
      \<lparr>r_Name = ''idx_ab'', r_Type = IndexTypeNormal, r_Unique = False, r_Partial = False,
       r_ColumnName = None\<rparr>,
      \<lparr>r_Name = ''sqlite_autoindex_t_1'', r_Type = IndexTypePrimaryKey, r_Unique = True,
       r_Partial = False, r_ColumnName = Some ''id''\<rparr>]"

definition example_indexes :: "Index list" where
  "example_indexes =
     [\<lparr>Name = ''idx_ab'', Type = IndexTypeNormal, IsUnique = False, IsPartial = False,
       ColumnNames = [Some ''a'', None]\<rparr>,
      \<lparr>Name = ''sqlite_autoindex_t_1'', Type = IndexTypePrimaryKey, IsUnique = True,
       IsPartial = False, ColumnNames = [Some ''id'']\<rparr>]"

text \<open>
  An executor with the databases \<open>main\<close>, \<open>temp\<close> and \<open>Aux1\<close> attached, which answers the
  queries for rows with the rows above, and one whose cursors have no rows.
\<close>

definition example_db :: sql_DB where
  "example_db =
     \<lparr>QueryRow_count =
        (\<lambda>q args. case args of
                     [IString p] \<Rightarrow> Inr (database_list_count [''main'', ''temp'', ''Aux1''] p)
                   | _ \<Rightarrow> Inl (Driver ''not a single text parameter'')),
      Query_strings = (\<lambda>q args. Inr [''t'', ''users'']),
      Query_Column = (\<lambda>q args. Inr []),
      Query_fk_row = (\<lambda>q args. Inr example_fk_rows),
      Query_index_row = (\<lambda>q args. Inr example_index_rows),
      Query_IndexColumn =
        (\<lambda>q args. if q = indexColumns_q args ''key = 1''
                   then Inr (xinfo_answer ''key = 1'' example_xinfo)
                   else Inr (xinfo_answer ''1 = 1'' example_xinfo))\<rparr>"

text \<open>
  An executor with the database \<open>main\<close> and one attached under the name \<open>a\<close> followed by
  U+FFFD (bytes \<open>EF BF BD\<close>). The engine knows no database of a name with the byte \<open>FF\<close>
  and answers a query on the catalog of one with an error.
\<close>

definition replacement_db :: sql_DB where
  "replacement_db =
     \<lparr>QueryRow_count =
        (\<lambda>q args. case args of
                     [IString p] \<Rightarrow>
                       Inr (database_list_count
                              [''main'', ''a'' @ [CHR 0xEF, CHR 0xBF, CHR 0xBD]] p)
                   | _ \<Rightarrow> Inl (Driver ''not a single text parameter'')),
      Query_strings = (\<lambda>q args. Inl (Driver ''unknown database'')),
      Query_Column = (\<lambda>q args. Inr []),
      Query_fk_row = (\<lambda>q args. Inr []),
      Query_index_row = (\<lambda>q args. Inr []),
      Query_IndexColumn = (\<lambda>q args. Inr [])\<rparr>"

text \<open>
  A formatter for messages without the verbs \<^verbatim>\<open>%T\<close>, \<^verbatim>\<open>%v\<close>, \<^verbatim>\<open>%q\<close> and \<^verbatim>\<open>%d\<close>, as the
  messages of the name-listing operations are.
\<close>

definition example_fmt :: Fmt where
  "example_fmt = \<lparr>verb_T = (\<lambda>v. []), verb_v = (\<lambda>v. []), verb_q = (\<lambda>s. s), verb_d = (\<lambda>n. [])\<rparr>"

definition empty_db :: sql_DB where
  "empty_db =
     \<lparr>QueryRow_count = (\<lambda>q args. Inr 0),
      Query_strings = (\<lambda>q args. Inr []),
      Query_Column = (\<lambda>q args. Inr []),
      Query_fk_row = (\<lambda>q args. Inr []),
      Query_index_row = (\<lambda>q args. Inr []),
      Query_IndexColumn = (\<lambda>q args. Inr [])\<rparr>"

section \<open>Properties of the string functions\<close>

lemma mod_shift: "(a::nat) * n \<le> p \<Longrightarrow> p < a * n + n \<Longrightarrow> p mod n = p - a * n"
  by (metis add_diff_inverse_nat le_add_diff_inverse less_diff_conv2 mod_less mod_mult_self4 mult.commute nat_add_left_cancel_less not_less)

lemma first_Some:
  "first p0 = Some (sz, lo, hi) \<Longrightarrow>
     (sz = 2 \<and> 0xC2 \<le> p0 \<and> p0 \<le> 0xDF \<and> lo = 0x80 \<and> hi = 0xBF) \<or>
     (sz = 3 \<and> p0 = 0xE0 \<and> lo = 0xA0 \<and> hi = 0xBF) \<or>
     (sz = 3 \<and> 0xE1 \<le> p0 \<and> p0 \<le> 0xEF \<and> 0x80 \<le> lo \<and> hi \<le> 0xBF) \<or>
     (sz = 4 \<and> p0 = 0xF0 \<and> lo = 0x90 \<and> hi = 0xBF) \<or>
     (sz = 4 \<and> 0xF1 \<le> p0 \<and> p0 \<le> 0xF4 \<and> 0x80 \<le> lo \<and> hi \<le> 0xBF)"
  unfolding first_def by (simp split: if_splits)

lemma m32: "(0xC2::nat) \<le> p \<Longrightarrow> p \<le> 0xDF \<Longrightarrow> 2 \<le> p mod 32"
  using mod_shift [of 6 32 p] by simp

lemma m16: "(0xE1::nat) \<le> p \<Longrightarrow> p \<le> 0xEF \<Longrightarrow> 1 \<le> p mod 16"
  using mod_shift [of 14 16 p] by simp

lemma m8: "(0xF1::nat) \<le> p \<Longrightarrow> p \<le> 0xF4 \<Longrightarrow> 1 \<le> p mod 8"
  using mod_shift [of 30 8 p] by simp

lemma m64a: "(0xA0::nat) \<le> p \<Longrightarrow> p \<le> 0xBF \<Longrightarrow> 32 \<le> p mod 64"
  using mod_shift [of 2 64 p] by simp

lemma m64b: "(0x90::nat) \<le> p \<Longrightarrow> p \<le> 0xBF \<Longrightarrow> 16 \<le> p mod 64"
  using mod_shift [of 2 64 p] by simp


lemma first_bound2:
  assumes "first p0 = Some (sz, lo, hi)" and "sz \<le> 2"
  shows "128 \<le> p0 mod 32 * 64 + x"
proof -
  from first_Some [OF assms(1)] assms(2) have "0xC2 \<le> p0" and "p0 \<le> 0xDF"
    by auto
  then have "2 \<le> p0 mod 32"
    by (rule m32)
  then show ?thesis
    by simp
qed

lemma first_bound3:
  assumes "first p0 = Some (sz, lo, hi)" and "\<not> sz \<le> 2" and "sz \<le> 3"
    and "\<not> b1 < lo" and "\<not> hi < b1"
  shows "128 \<le> p0 mod 16 * 4096 + b1 mod 64 * 64 + x"
proof -
  from first_Some [OF assms(1)] assms(2,3)
  consider "p0 = 0xE0" "lo = 0xA0" "hi = 0xBF" | "0xE1 \<le> p0" "p0 \<le> 0xEF"
    by auto
  then show ?thesis
  proof cases
    case 1
    with assms(4,5) have "32 \<le> b1 mod 64"
      by (intro m64a) simp_all
    then show ?thesis
      by simp
  next
    case 2
    then have "1 \<le> p0 mod 16"
      by (rule m16)
    then show ?thesis
      by simp
  qed
qed

lemma first_bound4:
  assumes "first p0 = Some (sz, lo, hi)" and "\<not> sz \<le> 3"
    and "\<not> b1 < lo" and "\<not> hi < b1"
  shows "128 \<le> p0 mod 8 * 262144 + b1 mod 64 * 4096 + x + y"
proof -
  from first_Some [OF assms(1)] assms(2)
  consider "p0 = 0xF0" "lo = 0x90" "hi = 0xBF" | "0xF1 \<le> p0" "p0 \<le> 0xF4"
    by auto
  then show ?thesis
  proof cases
    case 1
    with assms(3,4) have "16 \<le> b1 mod 64"
      by (intro m64b) simp_all
    then show ?thesis
      by simp
  next
    case 2
    then have "1 \<le> p0 mod 8"
      by (rule m8)
    then show ?thesis
      by simp
  qed
qed

lemma DecodeRuneInString_non_ascii:
  assumes "0x80 \<le> (of_char b :: nat)"
  shows "0x80 \<le> fst (DecodeRuneInString (b # bs))"
proof (cases "first (of_char b)")
  case None
  with assms show ?thesis
    by (simp add: DecodeRuneInString_def RuneSelf_def RuneError_def)
next
  case (Some t)
  obtain sz lo hi where t: "t = (sz, lo, hi)"
    by (cases t)
  note b2 = first_bound2 [OF Some [unfolded t]]
    and b3 = first_bound3 [OF Some [unfolded t]]
    and b4 = first_bound4 [OF Some [unfolded t]]
  from assms show ?thesis
    by (simp add: DecodeRuneInString_def RuneSelf_def RuneError_def Some t Let_def b2 b3 b4)
qed


lemma DecodeRuneInString_ascii:
  "(of_char b :: nat) < 0x80 \<Longrightarrow> DecodeRuneInString (b # bs) = (of_char b, 1)"
  by (simp add: DecodeRuneInString_def RuneSelf_def)

lemma DecodeRuneInString_width_pos: "s \<noteq> [] \<Longrightarrow> 0 < snd (DecodeRuneInString s)"
  by (cases s)
    (auto simp: DecodeRuneInString_def Let_def split: if_splits option.splits prod.splits)

lemma isASCII_Cons: "isASCII (b # bs) \<longleftrightarrow> (of_char b :: nat) < 0x80 \<and> isASCII bs"
  by (simp add: isASCII_def RuneSelf_def)

lemma runes_Cons:
  "runes (b # bs) =
     fst (DecodeRuneInString (b # bs)) # runes (drop (snd (DecodeRuneInString (b # bs))) (b # bs))"
  by (subst runes.simps) (simp add: split_beta del: runes.simps)

lemma runes_non_ascii: "\<not> isASCII s \<Longrightarrow> \<exists>r \<in> set (runes s). 0x80 \<le> r"
proof (induction s rule: runes.induct)
  case (1 s)
  from "1.prems" obtain b bs where s: "s = b # bs"
    by (cases s) (auto simp: isASCII_def)
  show ?case
  proof (cases "(of_char b :: nat) < 0x80")
    case True
    then have d: "DecodeRuneInString s = (of_char b, 1)"
      by (simp add: s DecodeRuneInString_ascii)
    from True "1.prems" have "\<not> isASCII (drop 1 s)"
      by (simp add: s isASCII_Cons)
    moreover have "s \<noteq> []"
      by (simp add: s)
    ultimately have "\<exists>r \<in> set (runes (drop 1 s)). 0x80 \<le> r"
      using "1.IH" d by metis
    then show ?thesis
      using d by (simp add: s runes_Cons del: runes.simps)
  next
    case False
    then have "0x80 \<le> fst (DecodeRuneInString s)"
      by (simp add: s DecodeRuneInString_non_ascii)
    then show ?thesis
      by (simp add: s runes_Cons del: runes.simps)
  qed
qed

lemma EncodeRune_ascii: "r \<le> 0x7F \<Longrightarrow> EncodeRune r = [char_of r]"
  by (simp add: EncodeRune_def)

lemma EncodeRune_non_ascii:
  assumes "0x7F < r"
  shows "0x80 \<le> (of_char (hd (EncodeRune r)) :: nat) \<and> EncodeRune r \<noteq> []"
proof (cases "r \<le> 0x7FF")
  case True
  then have "r div 64 < 32"
    by simp
  with True assms show ?thesis
    by (simp add: EncodeRune_def)
next
  case False
  show ?thesis
  proof (cases "MaxRune < r \<or> (0xD800 \<le> r \<and> r \<le> 0xDFFF)")
    case True
    with False assms show ?thesis
      by (simp add: EncodeRune_def)
  next
    case valid: False
    show ?thesis
    proof (cases "r \<le> 0xFFFF")
      case True
      then have "r div 4096 < 16"
        by simp
      with True False valid assms show ?thesis
        by (simp add: EncodeRune_def)
    next
      case big: False
      from valid have "r < 8 * 262144"
        by (simp add: MaxRune_def)
      then have "r div 262144 < 8"
        by (rule less_mult_imp_div_less)
      with big False valid assms show ?thesis
        by (simp add: EncodeRune_def)
    qed
  qed
qed


lemma strings_Map_Cons:
  "strings_Map f (b # bs) =
     (if f (fst (DecodeRuneInString (b # bs))) = fst (DecodeRuneInString (b # bs)) \<and>
         (fst (DecodeRuneInString (b # bs)) \<noteq> RuneError \<or> snd (DecodeRuneInString (b # bs)) \<noteq> 1)
      then take (snd (DecodeRuneInString (b # bs))) (b # bs)
             @ strings_Map f (drop (snd (DecodeRuneInString (b # bs))) (b # bs))
      else concat (map (\<lambda>c. EncodeRune (f c)) (runes (b # bs))))"
  by (subst strings_Map.simps) (simp add: split_beta del: strings_Map.simps runes.simps)

lemma strings_Map_non_ascii:
  assumes "\<not> isASCII s"
    and "\<And>r. 0x7F < r \<Longrightarrow> 0x7F < f r \<or> char_of (f r) \<notin> A"
  shows "\<exists>b \<in> set (strings_Map f s). 0x80 \<le> (of_char b :: nat) \<or> b \<notin> A"
  using assms
proof (induction f s rule: strings_Map.induct)
  case (1 f' s)
  note f = "1.prems"(2)
  from "1.prems"(1) obtain b bs where s: "s = b # bs"
    by (cases s) (auto simp: isASCII_def)
  let ?c = "fst (DecodeRuneInString s)" and ?w = "snd (DecodeRuneInString s)"
  show ?case
  proof (cases "f' ?c = ?c \<and> (?c \<noteq> RuneError \<or> ?w \<noteq> 1)")
    case keep: True
    show ?thesis
    proof (cases "(of_char b :: nat) < 0x80")
      case True
      then have d: "DecodeRuneInString s = (of_char b, 1)"
        by (simp add: s DecodeRuneInString_ascii)
      from True "1.prems"(1) have "\<not> isASCII (drop 1 s)"
        by (simp add: s isASCII_Cons)
      moreover have "s \<noteq> []"
        by (simp add: s)
      ultimately have "\<exists>b \<in> set (strings_Map f' (drop 1 s)). 0x80 \<le> (of_char b :: nat) \<or> b \<notin> A"
        using "1.IH" [of "of_char b" 1] d keep f by simp
      moreover have "strings_Map f' s = take ?w s @ strings_Map f' (drop ?w s)"
        unfolding s strings_Map_Cons using keep [unfolded s] by (rule if_P)
      ultimately show ?thesis
        using d by auto
    next
      case False
      have "0 < ?w"
        by (simp add: s DecodeRuneInString_width_pos)
      then have "b \<in> set (take ?w s)"
        by (cases ?w) (simp_all add: s)
      moreover have "strings_Map f' s = take ?w s @ strings_Map f' (drop ?w s)"
        unfolding s strings_Map_Cons using keep [unfolded s] by (rule if_P)
      moreover from False have "0x80 \<le> (of_char b :: nat)"
        by simp
      ultimately show ?thesis
        by (intro bexI [of _ b]) simp_all
    qed
  next
    case rewrite: False
    have res: "strings_Map f' s = concat (map (\<lambda>c. EncodeRune (f' c)) (runes s))"
      unfolding s strings_Map_Cons using rewrite [unfolded s] by (rule if_not_P)
    from "1.prems"(1) obtain r where r: "r \<in> set (runes s)" "0x80 \<le> r"
      using runes_non_ascii by blast
    show ?thesis
    proof (cases "0x7F < f' r")
      case True
      then have "0x80 \<le> (of_char (hd (EncodeRune (f' r))) :: nat)" and "EncodeRune (f' r) \<noteq> []"
        using EncodeRune_non_ascii by blast+
      then have "\<exists>b \<in> set (EncodeRune (f' r)). 0x80 \<le> (of_char b :: nat)"
        using hd_in_set by blast
      with r(1) show ?thesis
        unfolding res by auto
    next
      case False
      with f [of r] r(2) have "char_of (f' r) \<notin> A"
        by simp
      moreover from False have "EncodeRune (f' r) = [char_of (f' r)]"
        by (simp add: EncodeRune_ascii)
      ultimately have "\<exists>b \<in> set (EncodeRune (f' r)). 0x80 \<le> (of_char b :: nat) \<or> b \<notin> A"
        by simp
      with r(1) show ?thesis
        unfolding res by auto
    qed
  qed
qed

lemma char_of_eq_small:
  "m < 256 \<Longrightarrow> n < 256 \<Longrightarrow> (char_of (m :: nat) :: char) = char_of n \<longleftrightarrow> m = n"
  by (simp add: take_bit_eq_mod)

lemma fold_byte_equiv:
  fixes c d :: char
  shows "((if 0x61 \<le> (of_char c :: nat) \<and> (of_char c :: nat) \<le> 0x7A
           then char_of ((of_char c :: nat) - 0x20) else c) =
          (if 0x61 \<le> (of_char d :: nat) \<and> (of_char d :: nat) \<le> 0x7A
           then char_of ((of_char d :: nat) - 0x20) else d)) \<longleftrightarrow>
         ((if 0x41 \<le> (of_char c :: nat) \<and> (of_char c :: nat) \<le> 0x5A
           then char_of ((of_char c :: nat) + 0x20) else c) =
          (if 0x41 \<le> (of_char d :: nat) \<and> (of_char d :: nat) \<le> 0x5A
           then char_of ((of_char d :: nat) + 0x20) else d))"
proof -
  define n m :: nat where "n = of_char c" and "m = of_char d"
  have c: "c = char_of n" and d: "d = char_of m" and n: "n < 256" and m: "m < 256"
    by (simp_all add: n_def m_def)
  let ?up = "\<lambda>n :: nat. if 0x61 \<le> n \<and> n \<le> 0x7A then n - 0x20 else n"
  let ?lo = "\<lambda>n :: nat. if 0x41 \<le> n \<and> n \<le> 0x5A then n + 0x20 else n"
  have "(if 0x61 \<le> n \<and> n \<le> 0x7A then char_of (n - 0x20) else c) = (char_of (?up n) :: char)"
    and "(if 0x61 \<le> m \<and> m \<le> 0x7A then char_of (m - 0x20) else d) = (char_of (?up m) :: char)"
    and "(if 0x41 \<le> n \<and> n \<le> 0x5A then char_of (n + 0x20) else c) = (char_of (?lo n) :: char)"
    and "(if 0x41 \<le> m \<and> m \<le> 0x5A then char_of (m + 0x20) else d) = (char_of (?lo m) :: char)"
    by (simp_all add: c d)
  moreover have "?up n < 256" "?up m < 256" "?lo n < 256" "?lo m < 256"
    using n m by auto
  moreover have "?up n = ?up m \<longleftrightarrow> ?lo n = ?lo m"
    by auto
  ultimately show ?thesis
    unfolding n_def [symmetric] m_def [symmetric] by (simp only: char_of_eq_small)
qed


lemma map_fold_equiv:
  assumes "\<And>c d. f c = f d \<longleftrightarrow> g c = g d"
  shows "map f s = map f t \<longleftrightarrow> map g s = map g t"
proof (induction s arbitrary: t)
  case Nil
  then show ?case by simp
next
  case (Cons c s)
  then show ?case
    by (cases t) (simp_all add: assms)
qed

lemma strings_ToUpper_ascii:
  "isASCII s \<Longrightarrow>
     strings_ToUpper U s =
       map (\<lambda>c. if 0x61 \<le> (of_char c :: nat) \<and> (of_char c :: nat) \<le> 0x7A
                then char_of ((of_char c :: nat) - 0x20) else c) s"
  by (simp add: strings_ToUpper_def)

lemma strings_ToLower_ascii: "isASCII s \<Longrightarrow> strings_ToLower U s = ascii_lower s"
  by (simp add: strings_ToLower_def ascii_lower_def)

lemma isASCII_ascii_lower: "isASCII (ascii_lower s) = isASCII s"
proof -
  have "(of_char (if 0x41 \<le> (of_char c :: nat) \<and> (of_char c :: nat) \<le> 0x5A
                  then char_of ((of_char c :: nat) + 0x20) else c) :: nat) < 0x80
        \<longleftrightarrow> (of_char c :: nat) < 0x80" for c :: char
    by (simp add: take_bit_eq_mod)
  then show ?thesis
    unfolding isASCII_def ascii_lower_def RuneSelf_def by (induction s) simp_all
qed

lemma strings_ToUpper_ascii_match:
  assumes "isASCII s" and "isASCII lit" and "strings_ToUpper U lit = lit"
  shows "strings_ToUpper U s = lit \<longleftrightarrow> ascii_lower s = ascii_lower lit"
proof -
  have "strings_ToUpper U s = lit \<longleftrightarrow> strings_ToUpper U s = strings_ToUpper U lit"
    by (simp add: assms(3))
  also have "\<dots> \<longleftrightarrow> ascii_lower s = ascii_lower lit"
    unfolding strings_ToUpper_ascii [OF assms(1)] strings_ToUpper_ascii [OF assms(2)]
      ascii_lower_def
    by (rule map_fold_equiv) (rule fold_byte_equiv)
  finally show ?thesis .
qed

lemma ascii_match_isASCII:
  assumes "ascii_lower s = ascii_lower lit" and "isASCII lit"
  shows "isASCII s"
  using assms isASCII_ascii_lower by metis

lemma strings_ToLower_literal:
  assumes "no_ascii_image (to_LowerCase U) lit" and "isASCII lit"
  shows "strings_ToLower U s = lit \<longleftrightarrow> ascii_lower s = lit"
proof (cases "isASCII s")
  case True
  then show ?thesis
    by (simp add: strings_ToLower_ascii)
next
  case False
  have "0x7F < unicode_ToLower U r \<or> char_of (unicode_ToLower U r) \<notin> set lit"
    if "0x7F < r" for r
  proof (rule disjCI)
    assume "\<not> char_of (unicode_ToLower U r) \<notin> set lit"
    then have "(of_char (char_of (unicode_ToLower U r) :: char) :: nat) \<in> of_char ` set lit"
      by blast
    moreover have "unicode_ToLower U r = to_LowerCase U r" and "to_LowerCase U r \<notin> of_char ` set lit"
      using that assms(1) by (simp_all add: unicode_ToLower_def MaxASCII_def no_ascii_image_def)
    ultimately have "unicode_ToLower U r mod 256 \<noteq> unicode_ToLower U r"
      by (metis of_char_of)
    then have "\<not> unicode_ToLower U r < 256"
      by (metis mod_less)
    then show "0x7F < unicode_ToLower U r"
      by simp
  qed
  with False have "\<exists>b \<in> set (strings_Map (unicode_ToLower U) s). 0x80 \<le> (of_char b :: nat) \<or> b \<notin> set lit"
    by (rule strings_Map_non_ascii)
  moreover have "\<forall>b \<in> set lit. (of_char b :: nat) < 0x80"
    using assms(2) by (simp add: isASCII_def list_all_iff RuneSelf_def)
  ultimately have "strings_Map (unicode_ToLower U) s \<noteq> lit"
    by (metis not_less)
  moreover have "ascii_lower s \<noteq> lit"
    using False assms(2) isASCII_ascii_lower by metis
  ultimately show ?thesis
    using False by (simp add: strings_ToLower_def)
qed

lemma runes_Nil: "runes [] = []"
  by (simp add: runes.simps)

lemma strings_Map_Nil: "strings_Map f [] = []"
  by (simp add: strings_Map.simps)

lemmas utf8_eval =
  strings_ToUpper_def strings_ToLower_def isASCII_def strings_Map_Cons strings_Map_Nil
  runes_Cons runes_Nil DecodeRuneInString_def first_def EncodeRune_def
  unicode_ToUpper_def unicode_ToLower_def go_case_excerpt_def
  RuneSelf_def RuneError_def MaxASCII_def MaxRune_def Let_def char_of_eq_iff take_bit_eq_mod

section \<open>Reassembling rows into records\<close>

lemma ForeignKeys_loop_current:
  "ForeignKeys_loop t rows (Some (length pre)) (pre @ [cur]) =
     pre @ [cur\<lparr>ChildKey := ChildKey cur @ map r_From (takeWhile (\<lambda>y. r_ID y = ID cur) rows),
                 ParentKey := ParentKey cur @ map r_To (takeWhile (\<lambda>y. r_ID y = ID cur) rows)\<rparr>]
       @ map (ForeignKey_of_run t) (runs r_ID (dropWhile (\<lambda>y. r_ID y = ID cur) rows))"
proof (induction rows arbitrary: pre cur)
  case Nil
  show ?case by simp
next
  case (Cons r rows)
  show ?case
  proof (cases "r_ID r = ID cur")
    case True
    let ?cur = "cur\<lparr>ChildKey := ChildKey cur @ [r_From r], ParentKey := ParentKey cur @ [r_To r]\<rparr>"
    have "ForeignKeys_loop t (r # rows) (Some (length pre)) (pre @ [cur]) =
          ForeignKeys_loop t rows (Some (length pre)) (pre @ [?cur])"
      using True by simp
    also note Cons.IH [of pre ?cur]
    finally show ?thesis using True by simp
  next
    case False
    let ?new = "\<lparr>ID = r_ID r, ChildTable = t, ChildKey = [r_From r],
                  ParentTable = r_Table r, ParentKey = [r_To r],
                  OnUpdate = r_OnUpdate r, OnDelete = r_OnDelete r\<rparr>"
    have "ForeignKeys_loop t (r # rows) (Some (length pre)) (pre @ [cur]) =
          ForeignKeys_loop t rows (Some (length (pre @ [cur]))) ((pre @ [cur]) @ [?new])"
      using False by (simp add: nth_append list_update_append)
    also note Cons.IH [of "pre @ [cur]" ?new]
    finally show ?thesis using False by (simp add: ForeignKey_of_run_def)
  qed
qed

lemma ForeignKeys_loop_runs:
  "ForeignKeys_loop t rows None [] = map (ForeignKey_of_run t) (runs r_ID rows)"
proof (cases rows)
  case Nil
  then show ?thesis by simp
next
  case (Cons r rs)
  let ?new = "\<lparr>ID = r_ID r, ChildTable = t, ChildKey = [r_From r],
                ParentTable = r_Table r, ParentKey = [r_To r],
                OnUpdate = r_OnUpdate r, OnDelete = r_OnDelete r\<rparr>"
  have "ForeignKeys_loop t rows None [] = ForeignKeys_loop t rs (Some (length ([] :: ForeignKey list))) ([] @ [?new])"
    using Cons by simp
  also note ForeignKeys_loop_current [of t rs "[]" ?new]
  finally show ?thesis using Cons by (simp add: ForeignKey_of_run_def)
qed

lemma Indexes_loop_current:
  "Indexes_loop rows (Some (length pre)) (pre @ [cur]) =
     pre @ [cur\<lparr>ColumnNames := ColumnNames cur @ map r_ColumnName (takeWhile (\<lambda>y. r_Name y = Name cur) rows)\<rparr>]
       @ map Index_of_run (runs r_Name (dropWhile (\<lambda>y. r_Name y = Name cur) rows))"
proof (induction rows arbitrary: pre cur)
  case Nil
  show ?case by simp
next
  case (Cons r rows)
  show ?case
  proof (cases "r_Name r = Name cur")
    case True
    let ?cur = "cur\<lparr>ColumnNames := ColumnNames cur @ [r_ColumnName r]\<rparr>"
    have "Indexes_loop (r # rows) (Some (length pre)) (pre @ [cur]) =
          Indexes_loop rows (Some (length pre)) (pre @ [?cur])"
      using True by simp
    also note Cons.IH [of pre ?cur]
    finally show ?thesis using True by simp
  next
    case False
    let ?new = "\<lparr>Name = r_Name r, Type = r_Type r, IsUnique = r_Unique r,
                    IsPartial = r_Partial r, ColumnNames = [r_ColumnName r]\<rparr>"
    have "Indexes_loop (r # rows) (Some (length pre)) (pre @ [cur]) =
          Indexes_loop rows (Some (length (pre @ [cur]))) ((pre @ [cur]) @ [?new])"
      using False by (simp add: nth_append list_update_append)
    also note Cons.IH [of "pre @ [cur]" ?new]
    finally show ?thesis using False by (simp add: Index_of_run_def)
  qed
qed

lemma Indexes_loop_runs:
  "Indexes_loop rows None [] = map Index_of_run (runs r_Name rows)"
proof (cases rows)
  case Nil
  then show ?thesis by simp
next
  case (Cons r rs)
  let ?new = "\<lparr>Name = r_Name r, Type = r_Type r, IsUnique = r_Unique r,
                    IsPartial = r_Partial r, ColumnNames = [r_ColumnName r]\<rparr>"
  have "Indexes_loop rows None [] = Indexes_loop rs (Some (length ([] :: Index list))) ([] @ [?new])"
    using Cons by simp
  also note Indexes_loop_current [of rs "[]" ?new]
  finally show ?thesis using Cons by (simp add: Index_of_run_def)
qed

lemma concat_runs: "concat (runs key xs) = xs"
  by (induction key xs rule: runs.induct) simp_all

lemma runs_nonempty: "g \<in> set (runs key xs) \<Longrightarrow> g \<noteq> []"
  by (induction key xs rule: runs.induct) auto

lemma runs_same_key: "g \<in> set (runs key xs) \<Longrightarrow> r \<in> set g \<Longrightarrow> key r = key (hd g)"
  by (induction key xs rule: runs.induct) (auto dest: set_takeWhileD)

lemma runs_sublist: "g \<in> set (runs key xs) \<Longrightarrow> \<exists>pre post. xs = pre @ g @ post"
proof (induction key xs rule: runs.induct)
  case (1 key)
  then show ?case by simp
next
  case (2 key x xs)
  let ?P = "\<lambda>y. key y = key x"
  from 2 consider "g = x # takeWhile ?P xs" | "g \<in> set (runs key (dropWhile ?P xs))"
    by auto
  then show ?case
  proof cases
    case 1
    have "x # xs = [] @ g @ dropWhile ?P xs"
      using 1 by simp
    then show ?thesis by blast
  next
    case 2
    with "2.IH" obtain pre post where "dropWhile ?P xs = pre @ g @ post"
      by blast
    then have "x # xs = (x # takeWhile ?P xs @ pre) @ g @ post"
      by (metis append_Cons append_assoc takeWhile_dropWhile_id)
    then show ?thesis by blast
  qed
qed

lemma hd_runs_dropWhile:
  "runs key (dropWhile (\<lambda>y. key y = k) xs) = h # hs \<Longrightarrow> key (hd h) \<noteq> k"
proof -
  assume a: "runs key (dropWhile (\<lambda>y. key y = k) xs) = h # hs"
  then obtain y ys where d: "dropWhile (\<lambda>y. key y = k) xs = y # ys"
    by (cases "dropWhile (\<lambda>y. key y = k) xs") auto
  then have "key y \<noteq> k"
    using hd_dropWhile [of "\<lambda>y. key y = k" xs] by simp
  moreover have "hd h = y"
    using a d by auto
  ultimately show ?thesis by simp
qed

lemma neighbours_differ_runs: "neighbours_differ key (runs key xs)"
proof (induction key xs rule: runs.induct)
  case (1 key)
  show ?case by (simp add: neighbours_differ_def)
next
  case (2 key x xs)
  let ?P = "\<lambda>y. key y = key x"
  show ?case
  proof (cases "runs key (dropWhile ?P xs)")
    case Nil
    then show ?thesis by (simp add: neighbours_differ_def)
  next
    case (Cons h hs)
    have "key (hd h) \<noteq> key x"
      using hd_runs_dropWhile [OF Cons] .
    moreover have "key (last (x # takeWhile ?P xs)) = key x"
      by (cases "takeWhile ?P xs = []") (auto dest: set_takeWhileD last_in_set)
    ultimately show ?thesis
      using "2.IH" Cons by (simp add: neighbours_differ_def)
  qed
qed



lemma scan_rows_map:
  assumes "scan_rows scan raws = Inr rows"
    and "\<And>r x. scan r = Inr x \<Longrightarrow> f x = g r"
  shows "map f rows = map g raws"
  using assms(1)
proof (induction raws arbitrary: rows)
  case Nil
  then show ?case by simp
next
  case (Cons r raws)
  then show ?case
    by (auto split: sum.splits simp: assms(2))
qed

lemma scan_fk_row_From: "scan_fk_row U r = Inr x \<Longrightarrow> r_From x = r_From r"
  by (auto simp: scan_fk_row_def split: prod.splits option.splits)

lemma scan_fk_row_To: "scan_fk_row U r = Inr x \<Longrightarrow> r_To x = r_To r"
  by (auto simp: scan_fk_row_def split: prod.splits option.splits)

lemma Schema_ForeignKeys_Inr:
  assumes "snd (Schema_ForeignKeys U s db t) = Inr fks"
  obtains q params raws rows where
    "fst (Schema_ForeignKeys U s db t) = [(q, params)]"
    "Query_fk_row db q params = Inr raws"
    "scan_rows (scan_fk_row U) raws = Inr rows"
    "fks = map (ForeignKey_of_run t) (runs r_ID rows)"
  using assms
  by (auto simp: Schema_ForeignKeys_def Let_def queryRows_fk_row_def ForeignKeys_loop_runs
      split: sum.splits)

lemma Schema_Indexes_Inr:
  assumes "snd (Schema_Indexes U s db t) = Inr idxs"
  obtains q params raws rows where
    "fst (Schema_Indexes U s db t) = [(q, params)]"
    "Query_index_row db q params = Inr raws"
    "scan_rows (scan_index_row U) raws = Inr rows"
    "idxs = map Index_of_run (runs r_Name rows)"
  using assms
  by (auto simp: Schema_Indexes_def Let_def queryRows_index_row_def Indexes_loop_runs
      split: sum.splits)

text \<open>
  Claim C2. The loops of \<^verbatim>\<open>ForeignKeys\<close> and \<^verbatim>\<open>Indexes\<close> pass over the rows once and turn
  every maximal run of consecutive rows with equal group key (the id of the foreign key,
  the name of the index) into one record, in the order of the runs: the first row of the
  run gives the fields of the group, and every row of the run gives one entry of each
  list field, in row order. The runs are a partition of the rows into non-empty groups of
  constant key whose neighbours differ in key. This holds for every list of rows, sorted
  or not.
\<close>

theorem reassembly_by_runs:
  "ForeignKeys_loop tableName fk_rows None []
     = map (ForeignKey_of_run tableName) (runs r_ID fk_rows) \<and>
   Indexes_loop index_rows None [] = map Index_of_run (runs r_Name index_rows) \<and>
   concat (runs r_ID fk_rows) = fk_rows \<and>
   concat (runs r_Name index_rows) = index_rows \<and>
   (\<forall>g \<in> set (runs r_ID fk_rows). g \<noteq> [] \<and> (\<forall>r \<in> set g. r_ID r = r_ID (hd g))) \<and>
   (\<forall>g \<in> set (runs r_Name index_rows). g \<noteq> [] \<and> (\<forall>r \<in> set g. r_Name r = r_Name (hd g))) \<and>
   neighbours_differ r_ID (runs r_ID fk_rows) \<and>
   neighbours_differ r_Name (runs r_Name index_rows)"
proof (intro conjI ballI)
  show "ForeignKeys_loop tableName fk_rows None []
          = map (ForeignKey_of_run tableName) (runs r_ID fk_rows)"
    by (rule ForeignKeys_loop_runs)
  show "Indexes_loop index_rows None [] = map Index_of_run (runs r_Name index_rows)"
    by (rule Indexes_loop_runs)
qed (rule concat_runs runs_nonempty runs_same_key neighbours_differ_runs; assumption?)+

text \<open>Three rows of two foreign keys and three rows of two indexes.\<close>

theorem reassembly_by_runs_witness:
  "runs r_ID example_scanned_fk_rows
     = [take 2 example_scanned_fk_rows, drop 2 example_scanned_fk_rows] \<and>
   ForeignKeys_loop ''child'' example_scanned_fk_rows None [] = example_fks \<and>
   runs r_Name example_scanned_index_rows
     = [take 2 example_scanned_index_rows, drop 2 example_scanned_index_rows] \<and>
   Indexes_loop example_scanned_index_rows None [] = example_indexes \<and>
   take 2 example_scanned_fk_rows \<in> set (runs r_ID example_scanned_fk_rows) \<and>
   r_ID (example_scanned_fk_rows ! 1) = r_ID (hd (take 2 example_scanned_fk_rows)) \<and>
   neighbours_differ r_ID (runs r_ID example_scanned_fk_rows)"
proof -
  have fk_runs: "runs r_ID example_scanned_fk_rows
                   = [take 2 example_scanned_fk_rows, drop 2 example_scanned_fk_rows]"
    by (simp add: example_scanned_fk_rows_def)
  have idx_runs: "runs r_Name example_scanned_index_rows
                    = [take 2 example_scanned_index_rows, drop 2 example_scanned_index_rows]"
    by (simp add: example_scanned_index_rows_def)
  have fks: "map (ForeignKey_of_run ''child'')
               [take 2 example_scanned_fk_rows, drop 2 example_scanned_fk_rows] = example_fks"
    by (simp add: example_scanned_fk_rows_def example_fks_def ForeignKey_of_run_def)
  have idxs: "map Index_of_run
                [take 2 example_scanned_index_rows, drop 2 example_scanned_index_rows]
                = example_indexes"
    by (simp add: example_scanned_index_rows_def example_indexes_def Index_of_run_def)
  have second: "example_scanned_fk_rows ! 1 \<in> set (take 2 example_scanned_fk_rows)"
    by (simp add: example_scanned_fk_rows_def)
  have first: "take 2 example_scanned_fk_rows \<in> set (runs r_ID example_scanned_fk_rows)"
    by (simp add: fk_runs)
  note inst = reassembly_by_runs
      [of "''child''" example_scanned_fk_rows example_scanned_index_rows]
  from inst have "ForeignKeys_loop ''child'' example_scanned_fk_rows None [] = example_fks"
    unfolding fk_runs fks by (rule conjunct1)
  moreover from inst have "Indexes_loop example_scanned_index_rows None [] = example_indexes"
    unfolding idx_runs idxs by blast
  moreover from inst first second
  have "r_ID (example_scanned_fk_rows ! 1) = r_ID (hd (take 2 example_scanned_fk_rows))"
    by blast
  moreover from inst have "neighbours_differ r_ID (runs r_ID example_scanned_fk_rows)"
    by blast
  ultimately show ?thesis
    using fk_runs idx_runs first by blast
qed

text \<open>
  Claim C4. Every record of a successful result of \<^verbatim>\<open>ForeignKeys\<close> has a child-key list
  and a parent-key list of the same length, with at least one entry, and the entries at
  position \<open>i\<close> of the two lists are the \<^verbatim>\<open>from\<close> and \<^verbatim>\<open>to\<close> columns of one and the same row
  of the executor's answer: the row at position \<open>off + i\<close>, for an offset \<open>off\<close> of the record.
\<close>

theorem ForeignKeys_key_lists_paired:
  assumes "snd (Schema_ForeignKeys U s db tableName) = Inr fks"
    and "\<forall>(q, params) \<in> set (fst (Schema_ForeignKeys U s db tableName)).
           Query_fk_row db q params = Inr raws"
    and "fk \<in> set fks"
  shows "length (ChildKey fk) = length (ParentKey fk) \<and> 1 \<le> length (ChildKey fk) \<and>
         (\<exists>off. off + length (ChildKey fk) \<le> length raws \<and>
            (\<forall>i < length (ChildKey fk).
               ChildKey fk ! i = r_From (raws ! (off + i)) \<and>
               ParentKey fk ! i = r_To (raws ! (off + i))))"
proof -
  from assms(1) obtain q params raws' rows where
    issued: "fst (Schema_ForeignKeys U s db tableName) = [(q, params)]"
    and answer: "Query_fk_row db q params = Inr raws'"
    and scan: "scan_rows (scan_fk_row U) raws' = Inr rows"
    and fks: "fks = map (ForeignKey_of_run tableName) (runs r_ID rows)"
    by (rule Schema_ForeignKeys_Inr)
  from assms(2) issued answer have raws: "raws' = raws"
    by simp
  from assms(3) fks obtain g where g: "g \<in> set (runs r_ID rows)"
    and fk: "fk = ForeignKey_of_run tableName g"
    by auto
  from g obtain pre post where rows: "rows = pre @ g @ post"
    using runs_sublist by blast
  have eq_from: "map r_From rows = map r_From raws" and eq_to: "map r_To rows = map r_To raws"
    using scan raws by (auto intro: scan_rows_map scan_fk_row_From scan_fk_row_To)
  then have len: "length rows = length raws"
    by (metis length_map)
  have child: "ChildKey fk = map r_From g" and parent: "ParentKey fk = map r_To g"
    by (simp_all add: fk ForeignKey_of_run_def)
  have "g \<noteq> []"
    using g by (rule runs_nonempty)
  moreover have "length pre + length g \<le> length raws"
    using rows len by simp
  moreover have "ChildKey fk ! i = r_From (raws ! (length pre + i)) \<and>
                 ParentKey fk ! i = r_To (raws ! (length pre + i))" if "i < length g" for i
  proof -
    have i: "length pre + i < length rows"
      using that rows by simp
    have "g ! i = rows ! (length pre + i)"
      using that rows by (simp add: nth_append)
    moreover have "r_From (rows ! (length pre + i)) = r_From (raws ! (length pre + i))"
      using eq_from i len by (metis nth_map)
    moreover have "r_To (rows ! (length pre + i)) = r_To (raws ! (length pre + i))"
      using eq_to i len by (metis nth_map)
    ultimately show ?thesis
      using that by (simp add: child parent)
  qed
  ultimately show ?thesis
    by (auto simp: child parent Suc_le_eq intro!: exI [of _ "length pre"])
qed

text \<open>The executor with two foreign keys, the first over two columns.\<close>

theorem ForeignKeys_key_lists_paired_witness:
  "snd (Schema_ForeignKeys go_case_excerpt noSchema example_db ''child'') = Inr example_fks \<and>
   list_all (\<lambda>(q, params). Query_fk_row example_db q params = Inr example_fk_rows)
     (fst (Schema_ForeignKeys go_case_excerpt noSchema example_db ''child'')) \<and>
   hd example_fks \<in> set example_fks \<and>
   length (ChildKey (hd example_fks)) = length (ParentKey (hd example_fks)) \<and>
   1 \<le> length (ChildKey (hd example_fks)) \<and>
   (\<exists>off. off + length (ChildKey (hd example_fks)) \<le> length example_fk_rows \<and>
      (\<forall>i < length (ChildKey (hd example_fks)).
         ChildKey (hd example_fks) ! i = r_From (example_fk_rows ! (off + i)) \<and>
         ParentKey (hd example_fks) ! i = r_To (example_fk_rows ! (off + i))))"
proof -
  have result: "snd (Schema_ForeignKeys go_case_excerpt noSchema example_db ''child'')
                  = Inr example_fks"
    by code_simp
  have answer: "\<forall>(q, params) \<in> set (fst (Schema_ForeignKeys go_case_excerpt noSchema example_db ''child'')).
                  Query_fk_row example_db q params = Inr example_fk_rows"
    by (simp add: example_db_def)
  have member: "hd example_fks \<in> set example_fks"
    by (simp add: example_fks_def)
  from ForeignKeys_key_lists_paired [OF result answer member] result answer member
  show ?thesis
    unfolding list_all_iff by blast
qed

text \<open>
  Claim C9. Every record of a successful result of \<^verbatim>\<open>ForeignKeys\<close> has a non-empty
  child-key list and a non-empty parent-key list, and every record of a successful result
  of \<^verbatim>\<open>Indexes\<close> has a non-empty list of column names: the row that creates a record
  contributes its first entries.
\<close>

theorem reassembled_lists_nonempty:
  "(snd (Schema_ForeignKeys U s db tableName) = Inr fks \<longrightarrow>
      (\<forall>fk \<in> set fks. ChildKey fk \<noteq> [] \<and> ParentKey fk \<noteq> [])) \<and>
   (snd (Schema_Indexes U s db tableName) = Inr idxs \<longrightarrow>
      (\<forall>idx \<in> set idxs. ColumnNames idx \<noteq> []))"
proof (intro conjI impI ballI)
  fix fk
  assume ok: "snd (Schema_ForeignKeys U s db tableName) = Inr fks" and "fk \<in> set fks"
  from ok obtain q params raws rows where
    "fks = map (ForeignKey_of_run tableName) (runs r_ID rows)"
    by (rule Schema_ForeignKeys_Inr)
  with \<open>fk \<in> set fks\<close> obtain g where "g \<in> set (runs r_ID rows)"
    and "fk = ForeignKey_of_run tableName g"
    by auto
  then show "ChildKey fk \<noteq> []" and "ParentKey fk \<noteq> []"
    using runs_nonempty [of g r_ID rows] by (simp_all add: ForeignKey_of_run_def)
next
  fix idx
  assume ok: "snd (Schema_Indexes U s db tableName) = Inr idxs" and "idx \<in> set idxs"
  from ok obtain q params raws rows where
    "idxs = map Index_of_run (runs r_Name rows)"
    by (rule Schema_Indexes_Inr)
  with \<open>idx \<in> set idxs\<close> obtain g where "g \<in> set (runs r_Name rows)"
    and "idx = Index_of_run g"
    by auto
  then show "ColumnNames idx \<noteq> []"
    using runs_nonempty [of g r_Name rows] by (simp add: Index_of_run_def)
qed

text \<open>The executor with two foreign keys and two indexes.\<close>

theorem reassembled_lists_nonempty_witness:
  "snd (Schema_ForeignKeys go_case_excerpt noSchema example_db ''child'') = Inr example_fks \<and>
   hd example_fks \<in> set example_fks \<and>
   ChildKey (hd example_fks) \<noteq> [] \<and> ParentKey (hd example_fks) \<noteq> [] \<and>
   snd (Schema_Indexes go_case_excerpt (DB ''main'') example_db ''t'') = Inr example_indexes \<and>
   last example_indexes \<in> set example_indexes \<and>
   ColumnNames (last example_indexes) \<noteq> []"
proof -
  have fks: "snd (Schema_ForeignKeys go_case_excerpt noSchema example_db ''child'')
               = Inr example_fks"
    by code_simp
  have idxs: "snd (Schema_Indexes go_case_excerpt (DB ''main'') example_db ''t'')
                = Inr example_indexes"
    by code_simp
  have fk: "hd example_fks \<in> set example_fks"
    by (simp add: example_fks_def)
  have idx: "last example_indexes \<in> set example_indexes"
    by (simp add: example_indexes_def)
  from reassembled_lists_nonempty
         [of go_case_excerpt noSchema example_db "''child''" example_fks example_indexes]
       fks fk
  have "ChildKey (hd example_fks) \<noteq> [] \<and> ParentKey (hd example_fks) \<noteq> []"
    by blast
  moreover
  from reassembled_lists_nonempty
         [of go_case_excerpt "DB ''main''" example_db "''t''" example_fks example_indexes]
       idxs idx
  have "ColumnNames (last example_indexes) \<noteq> []"
    by blast
  ultimately show ?thesis
    using fks idxs fk idx by blast
qed

section \<open>Decoding the enumerations\<close>

lemma toString_cases:
  "toString src = (s, True) \<longleftrightarrow> src = IString s \<or> src = IBytes s"
  "snd (toString src) = False \<longleftrightarrow> (\<forall>s. src \<noteq> IString s \<and> src \<noteq> IBytes s)"
  by (cases src; auto)+

lemma ForeignKeyAction_Scan_string:
  "src = IString s \<or> src = IBytes s \<Longrightarrow>
     ForeignKeyAction_Scan U v src =
       (case map_of fk_literals (strings_ToUpper U s) of
          Some a \<Rightarrow> (None, a)
        | None \<Rightarrow> (Some (Errorf_unsupported ''ForeignKeyAction'' s), v))"
  by (auto simp: ForeignKeyAction_Scan_def fk_literals_def Let_def)

lemma ForeignKeyAction_Scan_other:
  "(\<forall>s. src \<noteq> IString s \<and> src \<noteq> IBytes s) \<Longrightarrow>
     ForeignKeyAction_Scan U v src = (Some (Errorf_invalid ''ForeignKeyAction'' src), v)"
  by (cases src) (simp_all add: ForeignKeyAction_Scan_def)

lemma IndexType_Scan_string:
  "src = IString s \<or> src = IBytes s \<Longrightarrow>
     IndexType_Scan U t src =
       (case map_of index_literals (strings_ToLower U s) of
          Some a \<Rightarrow> (None, a)
        | None \<Rightarrow> (Some (Errorf_unsupported ''IndexType'' s), t))"
  by (auto simp: IndexType_Scan_def index_literals_def Let_def)

lemma IndexType_Scan_other:
  "(\<forall>s. src \<noteq> IString s \<and> src \<noteq> IBytes s) \<Longrightarrow>
     IndexType_Scan U t src = (Some (Errorf_invalid ''IndexType'' src), t)"
  by (cases src) (simp_all add: IndexType_Scan_def)

lemma fk_literals_upper:
  "(l, a) \<in> set fk_literals \<Longrightarrow> isASCII l \<and> strings_ToUpper U l = l"
  by (auto simp: fk_literals_def isASCII_def RuneSelf_def strings_ToUpper_def)

lemma index_literals_lower:
  "(l, a) \<in> set index_literals \<Longrightarrow> isASCII l \<and> ascii_lower l = l"
  by (auto simp: index_literals_def isASCII_def RuneSelf_def ascii_lower_def)

lemma map_of_fold_literals:
  assumes "\<And>l a. (l, a) \<in> set literals \<Longrightarrow> (u = l \<longleftrightarrow> f = g l)"
  shows "map_of literals u = map_of (map (\<lambda>(l, a). (g l, a)) literals) f"
  using assms
proof (induction literals)
  case Nil
  show ?case by simp
next
  case (Cons p literals)
  obtain l a where p: "p = (l, a)"
    by (cases p)
  have head: "u = l \<longleftrightarrow> f = g l"
    using Cons.prems [of l a] by (simp add: p)
  have tail: "map_of literals u = map_of (map (\<lambda>(l, a). (g l, a)) literals) f"
  proof (rule Cons.IH)
    fix l' a'
    assume "(l', a') \<in> set literals"
    then show "u = l' \<longleftrightarrow> f = g l'"
      using Cons.prems [of l' a'] by simp
  qed
  show ?case
    using head tail by (simp add: p)
qed

lemma fk_match_ascii:
  assumes "isASCII s"
  shows "map_of fk_literals (strings_ToUpper U s) = ascii_match fk_literals s"
  unfolding ascii_match_def
  by (rule map_of_fold_literals)
    (use assms fk_literals_upper strings_ToUpper_ascii_match in blast)

lemma index_match_ascii:
  assumes "isASCII s"
  shows "map_of index_literals (strings_ToLower U s) = ascii_match index_literals s"
  unfolding ascii_match_def
  by (rule map_of_fold_literals)
    (use assms index_literals_lower strings_ToLower_ascii in metis)

lemma ascii_match_isASCII_content:
  assumes "ascii_match literals s = Some a" and "\<And>l b. (l, b) \<in> set literals \<Longrightarrow> isASCII l"
  shows "isASCII s"
proof -
  from assms(1) obtain l where "(l, a) \<in> set literals" and "ascii_lower l = ascii_lower s"
    unfolding ascii_match_def by (auto dest!: map_of_SomeD)
  then show ?thesis
    using assms(2) ascii_match_isASCII by metis
qed

text \<open>
  Claim C3 as stated fails: with the upper case \<open>S\<close> of U+017F (bytes \<open>C5 BF\<close>) and the
  lower case \<open>k\<close> of U+212A (bytes \<open>E2 84 AA\<close>), \<^verbatim>\<open>Scan\<close> accepts two inputs that match no
  literal under ASCII-only case folding.
\<close>

theorem Scan_ascii_only_counterexample:
  "ForeignKeyAction_Scan go_case_excerpt ForeignKeyActionNone
     (IString (''CA'' @ [CHR 0xC5, CHR 0xBF] @ ''CADE'')) = (None, ForeignKeyActionCascade) \<and>
   ascii_match fk_literals (''CA'' @ [CHR 0xC5, CHR 0xBF] @ ''CADE'') = None \<and>
   IndexType_Scan go_case_excerpt IndexTypeNormal
     (IBytes (''p'' @ [CHR 0xE2, CHR 0x84, CHR 0xAA])) = (None, IndexTypePrimaryKey) \<and>
   ascii_match index_literals (''p'' @ [CHR 0xE2, CHR 0x84, CHR 0xAA]) = None"
proof -
  have upper: "strings_ToUpper go_case_excerpt (''CA'' @ [CHR 0xC5, CHR 0xBF] @ ''CADE'')
                 = ''CASCADE''"
    by (simp add: utf8_eval)
  have lower: "strings_ToLower go_case_excerpt (''p'' @ [CHR 0xE2, CHR 0x84, CHR 0xAA]) = ''pk''"
    by (simp add: utf8_eval)
  have "ForeignKeyAction_Scan go_case_excerpt ForeignKeyActionNone
          (IString (''CA'' @ [CHR 0xC5, CHR 0xBF] @ ''CADE'')) = (None, ForeignKeyActionCascade)"
    unfolding ForeignKeyAction_Scan_def toString.simps prod.case upper by simp
  moreover have "ascii_match fk_literals (''CA'' @ [CHR 0xC5, CHR 0xBF] @ ''CADE'') = None"
    by (simp add: ascii_match_def fk_literals_def ascii_lower_def)
  moreover have "IndexType_Scan go_case_excerpt IndexTypeNormal
          (IBytes (''p'' @ [CHR 0xE2, CHR 0x84, CHR 0xAA])) = (None, IndexTypePrimaryKey)"
    unfolding IndexType_Scan_def toString.simps prod.case lower by simp
  moreover have "ascii_match index_literals (''p'' @ [CHR 0xE2, CHR 0x84, CHR 0xAA]) = None"
    by (simp add: ascii_match_def index_literals_def ascii_lower_def)
  ultimately show ?thesis
    by blast
qed

text \<open>
  Claim C3, as amended. \<^verbatim>\<open>Scan\<close> decodes a text string or a raw byte sequence by comparing
  \<^verbatim>\<open>strings.ToUpper\<close> of the content (\<^verbatim>\<open>strings.ToLower\<close> for an index type) with the
  recognized literals: it succeeds with the value of the literal it finds, and fails with
  the \<open>unsupported\<close> error that carries the content when it finds none. Any other input
  fails with the \<open>invalid\<close> error that carries the input. For content of ASCII bytes the
  comparison is the matching under ASCII-only case folding; content with other bytes
  never matches under ASCII-only folding, and whether \<^verbatim>\<open>Scan\<close> accepts it is decided by
  the Unicode case tables.
\<close>

theorem Scan_unicode_matching:
  "(src = IString s \<or> src = IBytes s \<longrightarrow>
      ForeignKeyAction_Scan U v src =
        (case map_of fk_literals (strings_ToUpper U s) of
           Some a \<Rightarrow> (None, a)
         | None \<Rightarrow> (Some (Errorf_unsupported ''ForeignKeyAction'' s), v)) \<and>
      IndexType_Scan U t src =
        (case map_of index_literals (strings_ToLower U s) of
           Some a \<Rightarrow> (None, a)
         | None \<Rightarrow> (Some (Errorf_unsupported ''IndexType'' s), t))) \<and>
   ((\<forall>s. src \<noteq> IString s \<and> src \<noteq> IBytes s) \<longrightarrow>
      ForeignKeyAction_Scan U v src = (Some (Errorf_invalid ''ForeignKeyAction'' src), v) \<and>
      IndexType_Scan U t src = (Some (Errorf_invalid ''IndexType'' src), t)) \<and>
   (isASCII s \<longrightarrow>
      map_of fk_literals (strings_ToUpper U s) = ascii_match fk_literals s \<and>
      map_of index_literals (strings_ToLower U s) = ascii_match index_literals s) \<and>
   (\<not> isASCII s \<longrightarrow>
      ascii_match fk_literals s = None \<and> ascii_match index_literals s = None)"
proof (intro conjI impI)
  assume "\<not> isASCII s"
  then show "ascii_match fk_literals s = None"
    using ascii_match_isASCII_content [of fk_literals s] fk_literals_upper
    by (cases "ascii_match fk_literals s") blast+
  from \<open>\<not> isASCII s\<close> show "ascii_match index_literals s = None"
    using ascii_match_isASCII_content [of index_literals s] index_literals_lower
    by (cases "ascii_match index_literals s") blast+
qed (simp_all add: ForeignKeyAction_Scan_string ForeignKeyAction_Scan_other
    IndexType_Scan_string IndexType_Scan_other fk_match_ascii index_match_ascii)

text \<open>The text \<open>cascade\<close>, the integer 42 and a byte sequence that is not ASCII.\<close>

theorem Scan_unicode_matching_witness:
  "ForeignKeyAction_Scan go_case_excerpt ForeignKeyActionNone (IString ''cascade'')
     = (None, ForeignKeyActionCascade) \<and>
   IndexType_Scan go_case_excerpt IndexTypeUnique (IString ''cascade'')
     = (Some (Errorf_unsupported ''IndexType'' ''cascade''), IndexTypeUnique) \<and>
   ForeignKeyAction_Scan go_case_excerpt ForeignKeyActionRestrict (IInt 42)
     = (Some (Errorf_invalid ''ForeignKeyAction'' (IInt 42)), ForeignKeyActionRestrict) \<and>
   IndexType_Scan go_case_excerpt IndexTypeUnique (IInt 42)
     = (Some (Errorf_invalid ''IndexType'' (IInt 42)), IndexTypeUnique) \<and>
   isASCII ''cascade'' \<and>
   ascii_match fk_literals ''cascade'' = Some ForeignKeyActionCascade \<and>
   \<not> isASCII (''p'' @ [CHR 0xE2, CHR 0x84, CHR 0xAA]) \<and>
   ascii_match index_literals (''p'' @ [CHR 0xE2, CHR 0x84, CHR 0xAA]) = None"
proof -
  have ascii: "isASCII ''cascade''"
    by code_simp
  have non_ascii: "\<not> isASCII (''p'' @ [CHR 0xE2, CHR 0x84, CHR 0xAA])"
    by (simp add: isASCII_def RuneSelf_def)
  have upper: "map_of fk_literals (strings_ToUpper go_case_excerpt ''cascade'')
                 = Some ForeignKeyActionCascade"
    by code_simp
  have lower: "map_of index_literals (strings_ToLower go_case_excerpt ''cascade'') = None"
    by code_simp
  have other: "\<forall>s. IInt 42 \<noteq> IString s \<and> IInt 42 \<noteq> IBytes s"
    by simp
  note string = Scan_unicode_matching
      [of "IString ''cascade''" "''cascade''" go_case_excerpt ForeignKeyActionNone IndexTypeUnique]
  note int = Scan_unicode_matching
      [of "IInt 42" "''p'' @ [CHR 0xE2, CHR 0x84, CHR 0xAA]" go_case_excerpt
        ForeignKeyActionRestrict IndexTypeUnique]
  from string ascii upper lower int non_ascii other show ?thesis
    by simp
qed

text \<open>
  Claim C8. When \<^verbatim>\<open>(*ForeignKeyAction).Scan\<close> or \<^verbatim>\<open>(*IndexType).Scan\<close> returns an error, for
  an input of an unsupported type or for an unrecognized literal, the value behind the
  receiver is the one it was before the call: a failed decode assigns nothing.
\<close>

theorem Scan_error_keeps_receiver:
  "(fst (ForeignKeyAction_Scan U v src) \<noteq> None \<longrightarrow> snd (ForeignKeyAction_Scan U v src) = v) \<and>
   (fst (IndexType_Scan U t src) \<noteq> None \<longrightarrow> snd (IndexType_Scan U t src) = t)"
  by (cases src) (simp_all add: ForeignKeyAction_Scan_def IndexType_Scan_def Let_def)

text \<open>The two decoders on the text \<open>bogus\<close>, with receivers that hold a value.\<close>

theorem Scan_error_keeps_receiver_witness:
  "fst (ForeignKeyAction_Scan go_case_excerpt ForeignKeyActionCascade (IString ''bogus'')) \<noteq> None \<and>
   snd (ForeignKeyAction_Scan go_case_excerpt ForeignKeyActionCascade (IString ''bogus''))
     = ForeignKeyActionCascade \<and>
   fst (IndexType_Scan go_case_excerpt IndexTypeUnique (IString ''bogus'')) \<noteq> None \<and>
   snd (IndexType_Scan go_case_excerpt IndexTypeUnique (IString ''bogus'')) = IndexTypeUnique"
proof -
  have a: "fst (ForeignKeyAction_Scan go_case_excerpt ForeignKeyActionCascade (IString ''bogus''))
             \<noteq> None"
    by code_simp
  have b: "fst (IndexType_Scan go_case_excerpt IndexTypeUnique (IString ''bogus'')) \<noteq> None"
    by code_simp
  from a b
    Scan_error_keeps_receiver
      [of go_case_excerpt ForeignKeyActionCascade "IString ''bogus''" IndexTypeUnique]
  show ?thesis
    by blast
qed

section \<open>The SQL text and its parameters\<close>

lemma strings_Repeat_char: "strings_Repeat [c] n = replicate n c"
  by (induction n) (simp_all add: strings_Repeat_def)

lemma explode_Nil: "explode [] = []"
  by (simp add: explode.simps)

lemma explode_ascii:
  "(of_char b :: nat) < 0x80 \<Longrightarrow> explode (b # bs) = [b] # explode bs"
  by (subst explode.simps) (simp add: DecodeRuneInString_ascii)

lemma explode_replicate_ascii:
  "(of_char b :: nat) < 0x80 \<Longrightarrow> explode (replicate n b) = replicate n [b]"
  by (induction n) (simp_all add: explode_Nil explode_ascii)

lemma placeholdersFor_Join:
  "placeholdersFor vals = strings_Join (replicate (length vals) ''?'') '', ''"
  by (simp add: placeholdersFor_def strings_Repeat_char explode_replicate_ascii)

lemma count_Join_Suc:
  "count_list (strings_Join (replicate (Suc n) ''?'') '', '') CHR ''?'' = Suc n"
  by (induction n) simp_all

lemma count_placeholdersFor: "count_list (placeholdersFor vals) CHR ''?'' = length vals"
  by (cases "length vals") (simp_all add: placeholdersFor_Join count_Join_Suc del: replicate_Suc)

lemma count_Columns_q: "count_list (Columns_q params) CHR ''?'' = length params"
  by (simp add: Columns_q_def line2_def line3_def count_placeholdersFor)

lemma count_ForeignKeys_q: "count_list (ForeignKeys_q params) CHR ''?'' = length params"
  by (simp add: ForeignKeys_q_def line2_def line3_def count_placeholdersFor)

lemma count_indexColumns_q:
  "count_list whereClause CHR ''?'' = 0 \<Longrightarrow>
     count_list (indexColumns_q params whereClause) CHR ''?'' = length params"
  by (simp add: indexColumns_q_def line2_def line3_def count_placeholdersFor)

lemma count_Indexes_q:
  "count_list (Indexes_q placeholder) CHR ''?'' = 1 + 2 * count_list placeholder CHR ''?''"
  by (simp add: Indexes_q_def line2_def line3_def)

text \<open>
  Claim C10. \<^verbatim>\<open>placeholdersFor(vals)\<close> is \<^verbatim>\<open>len(vals)\<close> question marks separated by a comma and
  a space. \<^verbatim>\<open>Columns\<close>, \<^verbatim>\<open>ForeignKeys\<close>, \<^verbatim>\<open>Indexes\<close> and \<^verbatim>\<open>indexColumns\<close> each hand one
  query to the executor, and its text has as many question marks as it has bound
  parameters: one for the object name when the selector is unscoped, and for a named
  selector one more per pragma call that takes the schema name (two such calls in
  \<^verbatim>\<open>Indexes\<close>, one in the others).
\<close>

theorem placeholders_match_parameters:
  "placeholdersFor vals = strings_Join (replicate (length vals) ''?'') '', '' \<and>
   count_list (placeholdersFor vals) CHR ''?'' = length vals \<and>
   (\<exists>q params. fst (Schema_Columns s db n) = [(q, params)] \<and>
      count_list q CHR ''?'' = length params \<and>
      length params = (if name s = [] then 1 else 2)) \<and>
   (\<exists>q params. fst (Schema_ForeignKeys U s db n) = [(q, params)] \<and>
      count_list q CHR ''?'' = length params \<and>
      length params = (if name s = [] then 1 else 2)) \<and>
   (\<exists>q params. fst (Schema_Indexes U s db n) = [(q, params)] \<and>
      count_list q CHR ''?'' = length params \<and>
      length params = (if name s = [] then 1 else 3)) \<and>
   (\<exists>q params. fst (indexColumns s db n includeAux) = [(q, params)] \<and>
      count_list q CHR ''?'' = length params \<and>
      length params = (if name s = [] then 1 else 2))"
  by (simp add: placeholdersFor_Join [symmetric] count_placeholdersFor
      Schema_Columns_def Schema_ForeignKeys_def Schema_Indexes_def indexColumns_def Let_def
      count_Columns_q count_ForeignKeys_q count_Indexes_q count_indexColumns_q)

text \<open>Two placeholders, and the queries of a named and of the unscoped selector.\<close>

theorem placeholders_match_parameters_witness:
  "placeholdersFor [IString ''t'', IString ''main''] = ''?, ?'' \<and>
   count_list (placeholdersFor [IString ''t'', IString ''main'']) CHR ''?'' = 2 \<and>
   (\<exists>q params. fst (Schema_Indexes go_case_excerpt (DB ''main'') example_db ''t'') = [(q, params)] \<and>
      count_list q CHR ''?'' = length params \<and> length params = 3) \<and>
   (\<exists>q params. fst (Schema_Columns noSchema example_db ''t'') = [(q, params)] \<and>
      count_list q CHR ''?'' = length params \<and> length params = 1)"
  using placeholders_match_parameters
          [of "[IString ''t'', IString ''main'']" "DB ''main''" example_db "''t''" go_case_excerpt]
        placeholders_match_parameters
          [of "[IString ''t'', IString ''main'']" noSchema example_db "''t''" go_case_excerpt]
  by (simp add: DB_def noSchema_def numeral_2_eq_2)

section \<open>Index columns\<close>

lemma xinfo_answer_key: "xinfo_answer ''key = 1'' xinfo = sort_key Rank (filter IsKey xinfo)"
  by (simp add: xinfo_answer_def)

lemma xinfo_answer_all: "xinfo_answer ''1 = 1'' xinfo = sort_key Rank xinfo"
  by (simp add: xinfo_answer_def)

lemma indexColumns_result:
  "indexColumns s db indexName includeAux =
     (let params = [IString indexName] @ (if name s \<noteq> [] then [IString (name s)] else []);
          q = indexColumns_q params (if includeAux then ''1 = 1'' else ''key = 1'')
      in ([(q, params)],
          case Query_IndexColumn db q params of
            Inl err \<Rightarrow> Inl (Errorf_could_not_get (''columns for index '' @ indexName) err)
          | Inr columns \<Rightarrow> Inr columns))"
  by (simp add: indexColumns_def queryRows_IndexColumn_def Let_def)

text \<open>
  Claim C5. Let the executor answer the \<^verbatim>\<open>pragma_index_xinfo\<close> query of an index as the
  engine does, with the entries the \<^verbatim>\<open>WHERE\<close> clause keeps in the order of their rank, and
  let the key entries come before the auxiliary entries in that order. Then
  \<^verbatim>\<open>IndexColumns\<close> sends the query with the clause \<^verbatim>\<open>key = 1\<close> and returns the executor's
  answer to it, \<^verbatim>\<open>IndexColumnsAux\<close> sends the query with the clause \<^verbatim>\<open>1 = 1\<close> and returns the
  executor's answer to that, with every entry of the index; the result of \<^verbatim>\<open>IndexColumns\<close>
  is the list of the entries of the result of \<^verbatim>\<open>IndexColumnsAux\<close> that are keys, unchanged
  and in the same order, it is a prefix of that result, and the entries after the prefix
  are auxiliary.
\<close>

theorem IndexColumns_keys_of_Aux:
  assumes "params = [IString indexName] @ (if name s \<noteq> [] then [IString (name s)] else [])"
    and "Query_IndexColumn db (indexColumns_q params ''key = 1'') params
           = Inr (xinfo_answer ''key = 1'' xinfo)"
    and "Query_IndexColumn db (indexColumns_q params ''1 = 1'') params
           = Inr (xinfo_answer ''1 = 1'' xinfo)"
    and "keys_first (xinfo_answer ''1 = 1'' xinfo)"
  shows "Schema_IndexColumns s db indexName =
           ([(indexColumns_q params ''key = 1'', params)], Inr (xinfo_answer ''key = 1'' xinfo)) \<and>
         Schema_IndexColumnsAux s db indexName =
           ([(indexColumns_q params ''1 = 1'', params)], Inr (xinfo_answer ''1 = 1'' xinfo)) \<and>
         set (xinfo_answer ''1 = 1'' xinfo) = set xinfo \<and>
         length (xinfo_answer ''1 = 1'' xinfo) = length xinfo \<and>
         (\<exists>ks all.
            snd (Schema_IndexColumns s db indexName) = Inr ks \<and>
            snd (Schema_IndexColumnsAux s db indexName) = Inr all \<and>
            ks = xinfo_answer ''key = 1'' xinfo \<and> all = xinfo_answer ''1 = 1'' xinfo \<and>
            ks = filter IsKey all \<and> prefix ks all \<and>
            list_all (\<lambda>c. \<not> IsKey c) (drop (length ks) all))"
proof -
  let ?ks = "xinfo_answer ''key = 1'' xinfo" and ?all = "xinfo_answer ''1 = 1'' xinfo"
  have ks: "Schema_IndexColumns s db indexName =
              ([(indexColumns_q params ''key = 1'', params)], Inr ?ks)"
    using assms(1,2) by (simp add: Schema_IndexColumns_def indexColumns_result Let_def)
  have all: "Schema_IndexColumnsAux s db indexName =
               ([(indexColumns_q params ''1 = 1'', params)], Inr ?all)"
    using assms(1,3) by (simp add: Schema_IndexColumnsAux_def indexColumns_result Let_def)
  have every: "set ?all = set xinfo" "length ?all = length xinfo"
    by (simp_all add: xinfo_answer_all)
  have filter: "?ks = filter IsKey ?all"
    by (simp add: xinfo_answer_key xinfo_answer_all filter_sort)
  from assms(4) have split: "?all = ?ks @ filter (\<lambda>c. \<not> IsKey c) ?all"
    unfolding keys_first_def filter [symmetric] .
  then have pre: "prefix ?ks ?all"
    by (metis prefixI)
  have "drop (length ?ks) ?all = filter (\<lambda>c. \<not> IsKey c) ?all"
    using split by (metis append_eq_conv_conj)
  then have aux: "list_all (\<lambda>c. \<not> IsKey c) (drop (length ?ks) ?all)"
    by (simp add: list_all_iff)
  have "\<exists>ks all.
          snd (Schema_IndexColumns s db indexName) = Inr ks \<and>
          snd (Schema_IndexColumnsAux s db indexName) = Inr all \<and>
          ks = ?ks \<and> all = ?all \<and>
          ks = filter IsKey all \<and> prefix ks all \<and>
          list_all (\<lambda>c. \<not> IsKey c) (drop (length ks) all)"
    using filter pre aux by (simp add: ks all)
  with ks all every show ?thesis
    by (simp only: simp_thms)
qed

text \<open>
  An index with two key columns and the row identifier as auxiliary column: the entries
  come back in the order of their rank, the two keys from \<^verbatim>\<open>IndexColumns\<close> and all three
  from \<^verbatim>\<open>IndexColumnsAux\<close>.
\<close>

theorem IndexColumns_keys_of_Aux_witness:
  "keys_first (xinfo_answer ''1 = 1'' example_xinfo) \<and>
   Schema_IndexColumns (DB ''main'') example_db ''idx_ab'' =
     ([(indexColumns_q [IString ''idx_ab'', IString ''main''] ''key = 1'',
        [IString ''idx_ab'', IString ''main''])],
      Inr [\<lparr>ic_Name = Some ''a'', Rank = 0, TableRank = 3, Descending = False,
             Collation = ''BINARY'', IsKey = True\<rparr>,
           \<lparr>ic_Name = Some ''b'', Rank = 1, TableRank = 1, Descending = True,
             Collation = ''NOCASE'', IsKey = True\<rparr>]) \<and>
   Schema_IndexColumnsAux (DB ''main'') example_db ''idx_ab'' =
     ([(indexColumns_q [IString ''idx_ab'', IString ''main''] ''1 = 1'',
        [IString ''idx_ab'', IString ''main''])],
      Inr [\<lparr>ic_Name = Some ''a'', Rank = 0, TableRank = 3, Descending = False,
             Collation = ''BINARY'', IsKey = True\<rparr>,
           \<lparr>ic_Name = Some ''b'', Rank = 1, TableRank = 1, Descending = True,
             Collation = ''NOCASE'', IsKey = True\<rparr>,
           \<lparr>ic_Name = None, Rank = 2, TableRank = TableRankRowID, Descending = False,
             Collation = ''BINARY'', IsKey = False\<rparr>])"
proof -
  let ?params = "[IString ''idx_ab''] @ (if name (DB ''main'') \<noteq> [] then [IString (name (DB ''main''))] else [])"
  have params: "?params = [IString ''idx_ab'', IString ''main'']"
    by (simp add: DB_def)
  have key: "Query_IndexColumn example_db (indexColumns_q ?params ''key = 1'') ?params
               = Inr (xinfo_answer ''key = 1'' example_xinfo)"
    by (simp add: example_db_def)
  have "indexColumns_q ?params ''1 = 1'' \<noteq> indexColumns_q ?params ''key = 1''"
    by (simp add: indexColumns_q_def line2_def line3_def)
  then have all: "Query_IndexColumn example_db (indexColumns_q ?params ''1 = 1'') ?params
               = Inr (xinfo_answer ''1 = 1'' example_xinfo)"
    by (simp add: example_db_def)
  have first: "keys_first (xinfo_answer ''1 = 1'' example_xinfo)"
    by (simp add: keys_first_def xinfo_answer_def example_xinfo_def)
  have ks_value: "xinfo_answer ''key = 1'' example_xinfo =
      [\<lparr>ic_Name = Some ''a'', Rank = 0, TableRank = 3, Descending = False,
         Collation = ''BINARY'', IsKey = True\<rparr>,
       \<lparr>ic_Name = Some ''b'', Rank = 1, TableRank = 1, Descending = True,
         Collation = ''NOCASE'', IsKey = True\<rparr>]"
    by (simp add: xinfo_answer_def example_xinfo_def)
  have all_value: "xinfo_answer ''1 = 1'' example_xinfo =
      [\<lparr>ic_Name = Some ''a'', Rank = 0, TableRank = 3, Descending = False,
         Collation = ''BINARY'', IsKey = True\<rparr>,
       \<lparr>ic_Name = Some ''b'', Rank = 1, TableRank = 1, Descending = True,
         Collation = ''NOCASE'', IsKey = True\<rparr>,
       \<lparr>ic_Name = None, Rank = 2, TableRank = TableRankRowID, Descending = False,
         Collation = ''BINARY'', IsKey = False\<rparr>]"
    by (simp add: xinfo_answer_def example_xinfo_def)
  note result = IndexColumns_keys_of_Aux [OF refl key all first]
  from result have "Schema_IndexColumns (DB ''main'') example_db ''idx_ab'' =
      ([(indexColumns_q ?params ''key = 1'', ?params)], Inr (xinfo_answer ''key = 1'' example_xinfo))"
    and "Schema_IndexColumnsAux (DB ''main'') example_db ''idx_ab'' =
      ([(indexColumns_q ?params ''1 = 1'', ?params)], Inr (xinfo_answer ''1 = 1'' example_xinfo))"
    by blast+
  with first show ?thesis
    unfolding params ks_value all_value by blast
qed

text \<open>
  Claim C6. When the executor answers the query of \<^verbatim>\<open>Columns\<close>, \<^verbatim>\<open>ForeignKeys\<close>,
  \<^verbatim>\<open>Indexes\<close>, \<^verbatim>\<open>IndexColumns\<close> or \<^verbatim>\<open>IndexColumnsAux\<close> with no rows, as it does for the
  name of a table or index that does not exist, the operation returns the empty list and
  no error.
\<close>

theorem no_rows_no_error:
  "((\<forall>(q, params) \<in> set (fst (Schema_Columns s db n)). Query_Column db q params = Inr [])
      \<longrightarrow> snd (Schema_Columns s db n) = Inr []) \<and>
   ((\<forall>(q, params) \<in> set (fst (Schema_ForeignKeys U s db n)). Query_fk_row db q params = Inr [])
      \<longrightarrow> snd (Schema_ForeignKeys U s db n) = Inr []) \<and>
   ((\<forall>(q, params) \<in> set (fst (Schema_Indexes U s db n)). Query_index_row db q params = Inr [])
      \<longrightarrow> snd (Schema_Indexes U s db n) = Inr []) \<and>
   ((\<forall>(q, params) \<in> set (fst (Schema_IndexColumns s db n)).
        Query_IndexColumn db q params = Inr [])
      \<longrightarrow> snd (Schema_IndexColumns s db n) = Inr []) \<and>
   ((\<forall>(q, params) \<in> set (fst (Schema_IndexColumnsAux s db n)).
        Query_IndexColumn db q params = Inr [])
      \<longrightarrow> snd (Schema_IndexColumnsAux s db n) = Inr [])"
  by (simp add: Schema_Columns_def Schema_ForeignKeys_def Schema_Indexes_def
      Schema_IndexColumns_def Schema_IndexColumnsAux_def indexColumns_def Let_def
      queryRows_Column_def queryRows_fk_row_def queryRows_index_row_def
      queryRows_IndexColumn_def)

text \<open>The executor without rows, asked for a name that does not exist.\<close>

theorem no_rows_no_error_witness:
  "list_all (\<lambda>(q, params). Query_Column empty_db q params = Inr [])
     (fst (Schema_Columns Temp empty_db ''xxxxxxxxx'')) \<and>
   snd (Schema_Columns Temp empty_db ''xxxxxxxxx'') = Inr [] \<and>
   snd (Schema_ForeignKeys go_case_excerpt Temp empty_db ''xxxxxxxxx'') = Inr [] \<and>
   snd (Schema_Indexes go_case_excerpt Temp empty_db ''xxxxxxxxx'') = Inr [] \<and>
   snd (Schema_IndexColumns Temp empty_db ''xxxxxxxxx'') = Inr [] \<and>
   snd (Schema_IndexColumnsAux Temp empty_db ''xxxxxxxxx'') = Inr []"
proof -
  have empty:
    "Query_Column empty_db q params = Inr []"
    "Query_fk_row empty_db q params = Inr []"
    "Query_index_row empty_db q params = Inr []"
    "Query_IndexColumn empty_db q params = Inr []" for q params
    by (simp_all add: empty_db_def)
  from no_rows_no_error [of Temp empty_db "''xxxxxxxxx''" go_case_excerpt] empty
  show ?thesis
    by (simp add: list_all_iff split_beta)
qed

section \<open>Listing names and verifying the schema\<close>

lemma isASCII_temp: "isASCII ''temp''"
  by (simp add: isASCII_def RuneSelf_def)

lemma strings_ToLower_temp:
  "no_ascii_image (to_LowerCase U) ''temp'' \<Longrightarrow>
     strings_ToLower U s = ''temp'' \<longleftrightarrow> ascii_lower s = ''temp''"
  by (rule strings_ToLower_literal) (simp_all add: isASCII_temp)

lemma verify_q_not_master: "verify_q \<noteq> masterTableNames_q tableName"
  by (simp add: verify_q_def masterTableNames_q_def)

lemma masterTableNames_q_inject:
  "masterTableNames_q a = masterTableNames_q b \<longleftrightarrow> a = b"
  by (simp add: masterTableNames_q_def)

lemma spliced_not_temp: "n @ ''.sqlite_master'' \<noteq> ''sqlite_temp_master''"
proof
  assume eq: "n @ ''.sqlite_master'' = ''sqlite_temp_master''"
  then have "length (n @ ''.sqlite_master'') = length ''sqlite_temp_master''"
    by simp
  then have "length n = 4"
    by simp
  with eq have "''.sqlite_master'' = drop 4 ''sqlite_temp_master''"
    by (metis append_eq_conv_conj)
  then show False
    by simp
qed

lemma masterTableNames_query_issued:
  "fst (masterTableNames_query db typ tableName) = [(masterTableNames_q tableName, [IString typ])]"
  by (simp add: masterTableNames_query_def Let_def)

lemma verify_issued: "fst (verify s db) = [(verify_q, [IString (sqlower (name s))])]"
  by (simp add: verify_def Let_def)

lemma name_listing_operations_are:
  "(f, typ) \<in> set name_listing_operations \<Longrightarrow> f U s db = masterTableNames U s db typ"
  by (auto simp: name_listing_operations_def Schema_TableNames_def Schema_ViewNames_def
      Schema_TriggerNames_def Schema_IndexNames_def)

lemma masterTableNames_temp:
  "strings_ToLower U (name s) = ''temp'' \<Longrightarrow>
     masterTableNames U s db typ = masterTableNames_query db typ ''sqlite_temp_master''"
proof -
  assume temp: "strings_ToLower U (name s) = ''temp''"
  have "strings_ToLower U [] = []"
    by (simp add: strings_ToLower_def isASCII_def)
  with temp have "name s \<noteq> []"
    by auto
  with temp show ?thesis
    by (simp add: masterTableNames_def)
qed

lemma masterTableNames_unscoped:
  "name s = [] \<Longrightarrow> masterTableNames U s db typ = masterTableNames_query db typ ''sqlite_master''"
  by (simp add: masterTableNames_def)

lemma masterTableNames_named:
  "name s \<noteq> [] \<Longrightarrow> strings_ToLower U (name s) \<noteq> ''temp'' \<Longrightarrow>
     masterTableNames U s db typ =
       (case snd (verify s db) of
          Some err \<Rightarrow> (fst (verify s db), Inl (Errorf_could_not_get (typ @ '' names'') err))
        | None \<Rightarrow>
            (fst (verify s db) @ fst (masterTableNames_query db typ (name s @ ''.sqlite_master'')),
             snd (masterTableNames_query db typ (name s @ ''.sqlite_master''))))"
  by (simp add: masterTableNames_def split: prod.splits option.splits)

lemma runes_ascii: "isASCII s \<Longrightarrow> runes s = map of_char s"
  by (induction s) (simp_all add: runes_Nil runes_Cons isASCII_Cons DecodeRuneInString_ascii)

lemma encode_lower_ascii:
  "isASCII s \<Longrightarrow>
     concat (map (\<lambda>c. EncodeRune
                    (if 0x41 \<le> (of_char c :: nat) \<and> (of_char c :: nat) \<le> 0x5A
                     then 0x61 + (of_char c :: nat) - 0x41 else of_char c)) s)
       = ascii_lower s"
proof (induction s)
  case Nil
  show ?case
    by (simp add: ascii_lower_def)
next
  case (Cons c cs)
  from Cons.prems have c: "(of_char c :: nat) < 0x80" and cs: "isASCII cs"
    by (simp_all add: isASCII_Cons)
  let ?r = "if 0x41 \<le> (of_char c :: nat) \<and> (of_char c :: nat) \<le> 0x5A
            then 0x61 + (of_char c :: nat) - 0x41 else of_char c"
  have "?r \<le> 0x7F"
    using c by auto
  then have "EncodeRune ?r = [char_of ?r]"
    by (rule EncodeRune_ascii)
  moreover have "(char_of ?r :: char) =
      (if 0x41 \<le> (of_char c :: nat) \<and> (of_char c :: nat) \<le> 0x5A
       then char_of ((of_char c :: nat) + 0x20) else c)"
    by auto
  ultimately show ?case
    using Cons.IH [OF cs] by (simp add: ascii_lower_def)
qed

lemma sqlower_ascii: "isASCII s \<Longrightarrow> sqlower s = ascii_lower s"
proof (induction s)
  case Nil
  show ?case
    by (simp add: sqlower_def ascii_lower_def strings_Map_Nil)
next
  case (Cons b bs)
  let ?f = "\<lambda>r :: nat. if 0x41 \<le> r \<and> r \<le> 0x5A then 0x61 + r - 0x41 else r"
  from Cons.prems have b: "(of_char b :: nat) < 0x80" and bs: "isASCII bs"
    by (simp_all add: isASCII_Cons)
  have d: "DecodeRuneInString (b # bs) = (of_char b, 1)"
    using b by (rule DecodeRuneInString_ascii)
  show ?case
  proof (cases "0x41 \<le> (of_char b :: nat) \<and> (of_char b :: nat) \<le> 0x5A")
    case False
    then have "strings_Map ?f (b # bs) = b # strings_Map ?f bs"
      using b by (auto simp add: strings_Map_Cons d RuneError_def)
    with False Cons.IH [OF bs] show ?thesis
      by (auto simp add: sqlower_def ascii_lower_def)
  next
    case True
    then have "strings_Map ?f (b # bs)
                 = concat (map (\<lambda>c. EncodeRune (?f c)) (runes (b # bs)))"
      by (simp add: strings_Map_Cons d)
    also have "\<dots> = concat (map (\<lambda>c. EncodeRune (?f (of_char c))) (b # bs))"
      by (simp add: runes_ascii [OF Cons.prems] comp_def)
    also have "\<dots> = ascii_lower (b # bs)"
      using Cons.prems by (rule encode_lower_ascii)
    finally show ?thesis
      by (simp add: sqlower_def)
  qed
qed


lemma database_list_count_none:
  "\<forall>n \<in> set attached. ascii_lower n \<noteq> p \<Longrightarrow> database_list_count attached p = 0"
  by (simp add: database_list_count_def filter_empty_conv)

lemma sublist_unknown_database: "sublist n (Error F (Errorf_could_not_get what (Errorf_unknown_database n)))"
proof -
  have "Error F (Errorf_could_not_get what (Errorf_unknown_database n))
          = (''could not get '' @ what @ '': unknown database '' @ [CHR 0x27]) @ n @ [CHR 0x27]"
    by simp
  then show ?thesis
    unfolding sublist_def by blast
qed

text \<open>
  Outside the ASCII names \<^verbatim>\<open>sqlower\<close> goes rune by rune: a byte that is not valid UTF-8
  comes out as U+FFFD.
\<close>

lemma sqlower_invalid_byte:
  "sqlower (''A'' @ [CHR 0xFF]) = ''a'' @ [CHR 0xEF, CHR 0xBF, CHR 0xBD]"
  by (simp add: sqlower_def utf8_eval)

section \<open>Decoding and encoding valid UTF-8\<close>

text \<open>
  On a string that is valid UTF-8 every rune is written back as the bytes it was read
  from, so that \<^verbatim>\<open>sqlower\<close> is the ASCII-only case folding there.
\<close>

lemma first_cases:
  "first p0 = Some (sz, lo, hi) \<Longrightarrow>
     (sz = 2 \<and> 0xC2 \<le> p0 \<and> p0 \<le> 0xDF \<and> lo = 0x80 \<and> hi = 0xBF) \<or>
     (sz = 3 \<and> p0 = 0xE0 \<and> lo = 0xA0 \<and> hi = 0xBF) \<or>
     (sz = 3 \<and> 0xE1 \<le> p0 \<and> p0 \<le> 0xEF \<and> p0 \<noteq> 0xED \<and> lo = 0x80 \<and> hi = 0xBF) \<or>
     (sz = 3 \<and> p0 = 0xED \<and> lo = 0x80 \<and> hi = 0x9F) \<or>
     (sz = 4 \<and> p0 = 0xF0 \<and> lo = 0x90 \<and> hi = 0xBF) \<or>
     (sz = 4 \<and> 0xF1 \<le> p0 \<and> p0 \<le> 0xF3 \<and> lo = 0x80 \<and> hi = 0xBF) \<or>
     (sz = 4 \<and> p0 = 0xF4 \<and> lo = 0x80 \<and> hi = 0x8F)"
  unfolding first_def by (simp split: if_splits)

lemma cont_mod: "(0x80::nat) \<le> b \<Longrightarrow> b \<le> 0xBF \<Longrightarrow> b mod 64 = b - 0x80"
  using mod_shift [of 2 64 b] by simp

lemma lead2_mod: "(0xC2::nat) \<le> p \<Longrightarrow> p \<le> 0xDF \<Longrightarrow> p mod 32 = p - 0xC0"
  using mod_shift [of 6 32 p] by simp

lemma lead3_mod: "(0xE0::nat) \<le> p \<Longrightarrow> p \<le> 0xEF \<Longrightarrow> p mod 16 = p - 0xE0"
  using mod_shift [of 14 16 p] by simp

lemma lead4_mod: "(0xF0::nat) \<le> p \<Longrightarrow> p \<le> 0xF4 \<Longrightarrow> p mod 8 = p - 0xF0"
  using mod_shift [of 30 8 p] by simp

lemma enc2:
  fixes a d :: nat
  assumes "2 \<le> a" "a < 32" "d < 64"
  shows "0x7F < a * 64 + d" "a * 64 + d \<le> 0x7FF" "(a * 64 + d) div 64 = a" "(a * 64 + d) mod 64 = d"
  using assms by simp_all

lemma enc3:
  fixes a d1 d2 :: nat
  assumes "a < 16" "d1 < 64" "d2 < 64"
  shows "(a * 4096 + d1 * 64 + d2) div 4096 = a"
    "(a * 4096 + d1 * 64 + d2) div 64 mod 64 = d1"
    "(a * 4096 + d1 * 64 + d2) mod 64 = d2"
    "a * 4096 + d1 * 64 + d2 \<le> 0xFFFF"
proof -
  have "d1 * 64 + d2 < 4096"
    using assms by simp
  then show "(a * 4096 + d1 * 64 + d2) div 4096 = a"
    by (simp add: add.assoc)
  have "(a * 4096 + d1 * 64 + d2) div 64 = a * 64 + d1"
    using assms by simp
  then show "(a * 4096 + d1 * 64 + d2) div 64 mod 64 = d1"
    using assms by simp
  have "a * 4096 + d1 * 64 + d2 = (a * 64 + d1) * 64 + d2"
    by simp
  then show "(a * 4096 + d1 * 64 + d2) mod 64 = d2"
    using assms by (simp only: mod_mult_self3 mod_less)
  show "a * 4096 + d1 * 64 + d2 \<le> 0xFFFF"
    using assms by simp
qed

lemma enc4:
  fixes a d1 d2 d3 :: nat
  assumes "d1 < 64" "d2 < 64" "d3 < 64"
  shows "(a * 262144 + d1 * 4096 + d2 * 64 + d3) div 262144 = a"
    "(a * 262144 + d1 * 4096 + d2 * 64 + d3) div 4096 mod 64 = d1"
    "(a * 262144 + d1 * 4096 + d2 * 64 + d3) div 64 mod 64 = d2"
    "(a * 262144 + d1 * 4096 + d2 * 64 + d3) mod 64 = d3"
proof -
  have "d1 * 4096 + d2 * 64 + d3 < 262144"
    using assms by simp
  then show "(a * 262144 + d1 * 4096 + d2 * 64 + d3) div 262144 = a"
    by (simp add: add.assoc)
  have "d2 * 64 + d3 < 4096"
    using assms by simp
  then have "(a * 262144 + d1 * 4096 + d2 * 64 + d3) div 4096 = a * 64 + d1"
    by (simp add: add.assoc)
  then show "(a * 262144 + d1 * 4096 + d2 * 64 + d3) div 4096 mod 64 = d1"
    using assms by simp
  have "(a * 262144 + d1 * 4096 + d2 * 64 + d3) div 64 = (a * 4096 + d1 * 64) + d2"
    using assms by simp
  moreover have "a * 4096 + d1 * 64 + d2 = (a * 64 + d1) * 64 + d2"
    by simp
  ultimately show "(a * 262144 + d1 * 4096 + d2 * 64 + d3) div 64 mod 64 = d2"
    using assms by (simp only: mod_mult_self3 mod_less)
  have "a * 262144 + d1 * 4096 + d2 * 64 + d3 = (a * 4096 + d1 * 64 + d2) * 64 + d3"
    by simp
  then show "(a * 262144 + d1 * 4096 + d2 * 64 + d3) mod 64 = d3"
    using assms by (simp only: mod_mult_self3 mod_less)
qed


lemma EncodeRune_2:
  assumes "2 \<le> a" "a < 32" "d < 64"
  shows "EncodeRune (a * 64 + d) = map char_of [0xC0 + a, 0x80 + d]"
proof -
  let ?r = "a * 64 + d"
  have c1: "\<not> ?r \<le> 0x7F" and c2: "?r \<le> 0x7FF"
    using enc2 [OF assms] by simp_all
  show ?thesis
    unfolding EncodeRune_def by (simp only: c1 c2 if_False if_True enc2 [OF assms])
qed

lemma EncodeRune_3:
  assumes "a < 16" "d1 < 64" "d2 < 64" and low: "a = 0 \<longrightarrow> 32 \<le> d1" and high: "a = 13 \<longrightarrow> d1 < 32"
  shows "EncodeRune (a * 4096 + d1 * 64 + d2) = map char_of [0xE0 + a, 0x80 + d1, 0x80 + d2]"
proof -
  let ?r = "a * 4096 + d1 * 64 + d2"
  have big: "0x7FF < ?r"
    using low by (cases "a = 0") simp_all
  have "a < 13 \<or> a = 13 \<or> 14 \<le> a"
    by arith
  then have sur: "?r < 0xD800 \<or> 0xDFFF < ?r"
    using high assms(2,3) by auto
  have c1: "\<not> ?r \<le> 0x7F" and c2: "\<not> ?r \<le> 0x7FF"
    using big by simp_all
  have c3: "\<not> (MaxRune < ?r \<or> (0xD800 \<le> ?r \<and> ?r \<le> 0xDFFF))"
    using sur enc3(4) [OF assms(1-3)] by (auto simp: MaxRune_def)
  have c4: "?r \<le> 0xFFFF"
    using assms(1-3) by (rule enc3)
  show ?thesis
    unfolding EncodeRune_def by (simp only: c1 c2 c3 c4 if_False if_True enc3 [OF assms(1-3)])
qed

lemma EncodeRune_4:
  assumes "a \<le> 4" "d1 < 64" "d2 < 64" "d3 < 64"
    and low: "a = 0 \<longrightarrow> 16 \<le> d1" and high: "a = 4 \<longrightarrow> d1 < 16"
  shows "EncodeRune (a * 262144 + d1 * 4096 + d2 * 64 + d3)
           = map char_of [0xF0 + a, 0x80 + d1, 0x80 + d2, 0x80 + d3]"
proof -
  let ?r = "a * 262144 + d1 * 4096 + d2 * 64 + d3"
  have big: "0xFFFF < ?r"
    using low by (cases "a = 0") simp_all
  have "a < 4 \<or> a = 4"
    using assms(1) by arith
  then have top: "?r \<le> 0x10FFFF"
    using high assms(2-4) by auto
  have c1: "\<not> ?r \<le> 0x7F" and c2: "\<not> ?r \<le> 0x7FF" and c4: "\<not> ?r \<le> 0xFFFF"
    using big by simp_all
  have c3: "\<not> (MaxRune < ?r \<or> (0xD800 \<le> ?r \<and> ?r \<le> 0xDFFF))"
    using big top by (auto simp: MaxRune_def)
  show ?thesis
    unfolding EncodeRune_def by (simp only: c1 c2 c3 c4 if_False if_True enc4 [OF assms(2-4)])
qed


lemma first_lead: "first p0 = Some t \<Longrightarrow> 0xC2 \<le> p0"
  by (simp add: first_def split: if_splits)

lemma Decode_none:
  "0x80 \<le> (of_char b :: nat) \<Longrightarrow> first (of_char b) = None \<Longrightarrow>
     DecodeRuneInString (b # bs) = (RuneError, 1)"
  by (simp add: DecodeRuneInString_def RuneSelf_def)

lemma Decode_short:
  "first (of_char b) = Some (sz, lo, hi) \<Longrightarrow> length (b # bs) < sz \<Longrightarrow>
     DecodeRuneInString (b # bs) = (RuneError, 1)"
  using first_lead [of "of_char b" "(sz, lo, hi)"]
  by (simp add: DecodeRuneInString_def RuneSelf_def)

lemma Decode_2:
  "first (of_char b) = Some (2, lo, hi) \<Longrightarrow>
     DecodeRuneInString (b # x1 # r) =
       (if (of_char x1 :: nat) < lo \<or> hi < of_char x1 then (RuneError, 1)
        else (of_char b mod 32 * 64 + of_char x1 mod 64, 2))"
  using first_lead [of "of_char b" "(2, lo, hi)"]
  by (simp add: DecodeRuneInString_def RuneSelf_def Let_def)

lemma Decode_3:
  "first (of_char b) = Some (3, lo, hi) \<Longrightarrow>
     DecodeRuneInString (b # x1 # x2 # r) =
       (if (of_char x1 :: nat) < lo \<or> hi < of_char x1 then (RuneError, 1)
        else if (of_char x2 :: nat) < 0x80 \<or> 0xBF < (of_char x2 :: nat) then (RuneError, 1)
        else (of_char b mod 16 * 4096 + of_char x1 mod 64 * 64 + of_char x2 mod 64, 3))"
  using first_lead [of "of_char b" "(3, lo, hi)"]
  by (simp add: DecodeRuneInString_def RuneSelf_def Let_def)

lemma Decode_4:
  "first (of_char b) = Some (4, lo, hi) \<Longrightarrow>
     DecodeRuneInString (b # x1 # x2 # x3 # r) =
       (if (of_char x1 :: nat) < lo \<or> hi < of_char x1 then (RuneError, 1)
        else if (of_char x2 :: nat) < 0x80 \<or> 0xBF < (of_char x2 :: nat) then (RuneError, 1)
        else if (of_char x3 :: nat) < 0x80 \<or> 0xBF < (of_char x3 :: nat) then (RuneError, 1)
        else (of_char b mod 8 * 262144 + of_char x1 mod 64 * 4096
                + of_char x2 mod 64 * 64 + of_char x3 mod 64, 4))"
  using first_lead [of "of_char b" "(4, lo, hi)"]
  by (simp add: DecodeRuneInString_def RuneSelf_def Let_def)


lemma roundtrip_2:
  assumes f: "first (of_char b) = Some (2, lo, hi)"
    and d: "DecodeRuneInString (b # x1 # r) = (c, w)"
    and ok: "c \<noteq> RuneError \<or> w \<noteq> 1"
  shows "w = 2" and "EncodeRune c = [b, x1]" and "0x80 \<le> (of_char x1 :: nat)"
proof -
  let ?p = "of_char b :: nat" and ?q = "of_char x1 :: nat"
  from first_cases [OF f] have p: "0xC2 \<le> ?p" "?p \<le> 0xDF" and lo: "lo = 0x80" and hi: "hi = 0xBF"
    by auto
  from d ok have q: "0x80 \<le> ?q" "?q \<le> 0xBF" and c: "c = ?p mod 32 * 64 + ?q mod 64" and w: "w = 2"
    unfolding Decode_2 [OF f] lo hi by (auto split: if_splits)
  show "w = 2" and "0x80 \<le> ?q"
    by (rule w, rule q)
  have "c = (?p - 0xC0) * 64 + (?q - 0x80)"
    unfolding c lead2_mod [OF p] cont_mod [OF q] ..
  moreover have "EncodeRune ((?p - 0xC0) * 64 + (?q - 0x80))
                   = map char_of [0xC0 + (?p - 0xC0), 0x80 + (?q - 0x80)]"
    using p q by (intro EncodeRune_2) simp_all
  moreover have "0xC0 + (?p - 0xC0) = ?p" and "0x80 + (?q - 0x80) = ?q"
    using p q by simp_all
  ultimately show "EncodeRune c = [b, x1]"
    by simp
qed

lemma roundtrip_3:
  assumes f: "first (of_char b) = Some (3, lo, hi)"
    and d: "DecodeRuneInString (b # x1 # x2 # r) = (c, w)"
    and ok: "c \<noteq> RuneError \<or> w \<noteq> 1"
  shows "w = 3" and "EncodeRune c = [b, x1, x2]"
    and "0x80 \<le> (of_char x1 :: nat)" and "0x80 \<le> (of_char x2 :: nat)"
proof -
  let ?p = "of_char b :: nat" and ?q1 = "of_char x1 :: nat" and ?q2 = "of_char x2 :: nat"
  from first_cases [OF f] have p: "0xE0 \<le> ?p" "?p \<le> 0xEF" and range: "0x80 \<le> lo" "hi \<le> 0xBF"
    and low: "?p = 0xE0 \<longrightarrow> lo = 0xA0" and high: "?p = 0xED \<longrightarrow> hi = 0x9F"
    by auto
  from d ok have q1: "lo \<le> ?q1" "?q1 \<le> hi" and q2: "0x80 \<le> ?q2" "?q2 \<le> 0xBF"
    and c: "c = ?p mod 16 * 4096 + ?q1 mod 64 * 64 + ?q2 mod 64" and w: "w = 3"
    unfolding Decode_3 [OF f] by (auto split: if_splits)
  from q1 range have q1': "0x80 \<le> ?q1" "?q1 \<le> 0xBF"
    by simp_all
  show "w = 3" and "0x80 \<le> ?q1" and "0x80 \<le> ?q2"
    by (rule w, rule q1', rule q2)
  have "c = (?p - 0xE0) * 4096 + (?q1 - 0x80) * 64 + (?q2 - 0x80)"
    unfolding c lead3_mod [OF p] cont_mod [OF q1'] cont_mod [OF q2] ..
  moreover have "EncodeRune ((?p - 0xE0) * 4096 + (?q1 - 0x80) * 64 + (?q2 - 0x80))
                   = map char_of [0xE0 + (?p - 0xE0), 0x80 + (?q1 - 0x80), 0x80 + (?q2 - 0x80)]"
    using p q1 q1' q2 low high by (intro EncodeRune_3) auto
  moreover have "0xE0 + (?p - 0xE0) = ?p" and "0x80 + (?q1 - 0x80) = ?q1"
      and "0x80 + (?q2 - 0x80) = ?q2"
    using p q1' q2 by simp_all
  ultimately show "EncodeRune c = [b, x1, x2]"
    by simp
qed

lemma roundtrip_4:
  assumes f: "first (of_char b) = Some (4, lo, hi)"
    and d: "DecodeRuneInString (b # x1 # x2 # x3 # r) = (c, w)"
    and ok: "c \<noteq> RuneError \<or> w \<noteq> 1"
  shows "w = 4" and "EncodeRune c = [b, x1, x2, x3]"
    and "0x80 \<le> (of_char x1 :: nat)" and "0x80 \<le> (of_char x2 :: nat)"
    and "0x80 \<le> (of_char x3 :: nat)"
proof -
  let ?p = "of_char b :: nat" and ?q1 = "of_char x1 :: nat" and ?q2 = "of_char x2 :: nat"
    and ?q3 = "of_char x3 :: nat"
  from first_cases [OF f] have p: "0xF0 \<le> ?p" "?p \<le> 0xF4" and range: "0x80 \<le> lo" "hi \<le> 0xBF"
    and low: "?p = 0xF0 \<longrightarrow> lo = 0x90" and high: "?p = 0xF4 \<longrightarrow> hi = 0x8F"
    by auto
  from d ok have q1: "lo \<le> ?q1" "?q1 \<le> hi" and q2: "0x80 \<le> ?q2" "?q2 \<le> 0xBF"
    and q3: "0x80 \<le> ?q3" "?q3 \<le> 0xBF"
    and c: "c = ?p mod 8 * 262144 + ?q1 mod 64 * 4096 + ?q2 mod 64 * 64 + ?q3 mod 64"
    and w: "w = 4"
    unfolding Decode_4 [OF f] by (auto split: if_splits)
  from q1 range have q1': "0x80 \<le> ?q1" "?q1 \<le> 0xBF"
    by simp_all
  show "w = 4" and "0x80 \<le> ?q1" and "0x80 \<le> ?q2" and "0x80 \<le> ?q3"
    by (rule w, rule q1', rule q2, rule q3)
  have "c = (?p - 0xF0) * 262144 + (?q1 - 0x80) * 4096 + (?q2 - 0x80) * 64 + (?q3 - 0x80)"
    unfolding c lead4_mod [OF p] cont_mod [OF q1'] cont_mod [OF q2] cont_mod [OF q3] ..
  moreover have
    "EncodeRune ((?p - 0xF0) * 262144 + (?q1 - 0x80) * 4096 + (?q2 - 0x80) * 64 + (?q3 - 0x80))
       = map char_of [0xF0 + (?p - 0xF0), 0x80 + (?q1 - 0x80), 0x80 + (?q2 - 0x80),
                      0x80 + (?q3 - 0x80)]"
    using p q1 q1' q2 q3 low high by (intro EncodeRune_4) auto
  moreover have "0xF0 + (?p - 0xF0) = ?p" and "0x80 + (?q1 - 0x80) = ?q1"
      and "0x80 + (?q2 - 0x80) = ?q2" and "0x80 + (?q3 - 0x80) = ?q3"
    using p q1' q2 q3 by simp_all
  ultimately show "EncodeRune c = [b, x1, x2, x3]"
    by simp
qed


lemma ascii_lower_append: "ascii_lower (xs @ ys) = ascii_lower xs @ ascii_lower ys"
  by (simp add: ascii_lower_def)

lemma ascii_lower_non_ascii:
  "list_all (\<lambda>x. 0x80 \<le> (of_char x :: nat)) xs \<Longrightarrow> ascii_lower xs = xs"
  by (induction xs) (simp_all add: ascii_lower_def)

lemma DecodeRuneInString_roundtrip:
  assumes d: "DecodeRuneInString (b # bs) = (c, w)" and ok: "c \<noteq> RuneError \<or> w \<noteq> 1"
  shows "EncodeRune c = take w (b # bs)"
    and "0x80 \<le> (of_char b :: nat) \<longrightarrow>
           list_all (\<lambda>x. 0x80 \<le> (of_char x :: nat)) (take w (b # bs))"
proof -
  have "EncodeRune c = take w (b # bs) \<and>
        (0x80 \<le> (of_char b :: nat) \<longrightarrow>
           list_all (\<lambda>x. 0x80 \<le> (of_char x :: nat)) (take w (b # bs)))"
  proof (cases "(of_char b :: nat) < 0x80")
    case True
    with d have "c = of_char b" and "w = 1"
      by (simp_all add: DecodeRuneInString_ascii)
    with True show ?thesis
      by (simp add: EncodeRune_ascii)
  next
    case False
    then have b: "0x80 \<le> (of_char b :: nat)"
      by simp
    from d ok Decode_none [OF b] obtain sz lo hi where f: "first (of_char b) = Some (sz, lo, hi)"
      by (cases "first (of_char b)") auto
    from d ok Decode_short [OF f] have len: "sz \<le> length (b # bs)"
      by (cases "length (b # bs) < sz") auto
    from first_cases [OF f] consider "sz = 2" | "sz = 3" | "sz = 4"
      by auto
    then show ?thesis
    proof cases
      case 1
      with len obtain x1 r where bs: "bs = x1 # r"
        by (cases bs) auto
      from roundtrip_2 [OF f [unfolded 1] d [unfolded bs] ok] b show ?thesis
        by (simp add: bs)
    next
      case 2
      with len obtain x1 x2 r where bs: "bs = x1 # x2 # r"
        by (cases bs; cases "tl bs") auto
      from roundtrip_3 [OF f [unfolded 2] d [unfolded bs] ok] b show ?thesis
        by (simp add: bs)
    next
      case 3
      with len obtain x1 x2 x3 r where bs: "bs = x1 # x2 # x3 # r"
        by (cases bs; cases "tl bs"; cases "tl (tl bs)") auto
      from roundtrip_4 [OF f [unfolded 3] d [unfolded bs] ok] b show ?thesis
        by (simp add: bs)
    qed
  qed
  then show "EncodeRune c = take w (b # bs)"
    and "0x80 \<le> (of_char b :: nat) \<longrightarrow>
           list_all (\<lambda>x. 0x80 \<le> (of_char x :: nat)) (take w (b # bs))"
    by simp_all
qed

lemma EncodeRune_lower:
  assumes d: "DecodeRuneInString (b # bs) = (c, w)" and ok: "c \<noteq> RuneError \<or> w \<noteq> 1"
  shows "EncodeRune (if 0x41 \<le> c \<and> c \<le> 0x5A then 0x61 + c - 0x41 else c)
           = ascii_lower (take w (b # bs))"
proof (cases "(of_char b :: nat) < 0x80")
  case True
  with d have c: "c = of_char b" and w: "w = 1"
    by (simp_all add: DecodeRuneInString_ascii)
  let ?r = "if 0x41 \<le> c \<and> c \<le> 0x5A then 0x61 + c - 0x41 else c"
  have "?r \<le> 0x7F"
    using True c by auto
  then have "EncodeRune ?r = [char_of ?r]"
    by (rule EncodeRune_ascii)
  moreover have "(char_of ?r :: char) =
      (if 0x41 \<le> (of_char b :: nat) \<and> (of_char b :: nat) \<le> 0x5A
       then char_of ((of_char b :: nat) + 0x20) else b)"
    by (auto simp: c)
  ultimately show ?thesis
    by (simp add: w ascii_lower_def)
next
  case False
  then have "0x80 \<le> fst (DecodeRuneInString (b # bs))"
    by (simp add: DecodeRuneInString_non_ascii)
  then have "0x80 \<le> c"
    by (simp add: d)
  moreover from False DecodeRuneInString_roundtrip [OF d ok]
  have "EncodeRune c = take w (b # bs)" and "ascii_lower (take w (b # bs)) = take w (b # bs)"
    by (simp_all add: ascii_lower_non_ascii)
  ultimately show ?thesis
    by simp
qed


lemma valid_utf8_Nil: "valid_utf8 []"
  by (simp add: valid_utf8.simps)

lemma valid_utf8_Cons:
  "valid_utf8 (b # bs) \<longleftrightarrow>
     (fst (DecodeRuneInString (b # bs)) \<noteq> RuneError \<or> snd (DecodeRuneInString (b # bs)) \<noteq> 1) \<and>
     valid_utf8 (drop (snd (DecodeRuneInString (b # bs))) (b # bs))"
  by (subst valid_utf8.simps) (simp add: split_beta)

lemma runes_lower:
  "valid_utf8 s \<Longrightarrow>
     concat (map (\<lambda>c. EncodeRune (if 0x41 \<le> c \<and> c \<le> 0x5A then 0x61 + c - 0x41 else c))
               (runes s))
       = ascii_lower s"
proof (induction s rule: runes.induct)
  case (1 s)
  show ?case
  proof (cases s)
    case Nil
    then show ?thesis
      by (simp add: runes_Nil ascii_lower_def)
  next
    case (Cons b bs)
    obtain c w where d: "DecodeRuneInString (b # bs) = (c, w)"
      by (cases "DecodeRuneInString (b # bs)")
    from "1.prems" have ok: "c \<noteq> RuneError \<or> w \<noteq> 1" and rest: "valid_utf8 (drop w (b # bs))"
      by (simp_all add: Cons valid_utf8_Cons d)
    have "concat (map (\<lambda>c. EncodeRune (if 0x41 \<le> c \<and> c \<le> 0x5A then 0x61 + c - 0x41 else c))
                    (runes (drop w s)))
            = ascii_lower (drop w s)"
      using "1.IH" [of c w] d rest by (simp add: Cons)
    moreover have "runes s = c # runes (drop w s)"
      by (simp add: Cons runes_Cons d)
    moreover have "ascii_lower s = ascii_lower (take w s) @ ascii_lower (drop w s)"
      by (simp add: ascii_lower_append [symmetric])
    ultimately show ?thesis
      using EncodeRune_lower [OF d ok] by (simp add: Cons)
  qed
qed

lemma sqlower_valid_utf8: "valid_utf8 s \<Longrightarrow> sqlower s = ascii_lower s"
proof -
  let ?f = "\<lambda>r :: nat. if 0x41 \<le> r \<and> r \<le> 0x5A then 0x61 + r - 0x41 else r"
  have "valid_utf8 s \<Longrightarrow> f = ?f \<Longrightarrow> strings_Map f s = ascii_lower s" for f
  proof (induction f s rule: strings_Map.induct)
    case (1 f s)
    show ?case
    proof (cases s)
      case Nil
      then show ?thesis
        by (simp add: strings_Map_Nil ascii_lower_def)
    next
      case (Cons b bs)
      obtain c w where d: "DecodeRuneInString (b # bs) = (c, w)"
        by (cases "DecodeRuneInString (b # bs)")
      from "1.prems"(1) have ok: "c \<noteq> RuneError \<or> w \<noteq> 1"
        and rest: "valid_utf8 (drop w (b # bs))"
        by (simp_all add: Cons valid_utf8_Cons d)
      show ?thesis
      proof (cases "f c = c")
        case True
        then have "strings_Map f s = take w s @ strings_Map f (drop w s)"
          using ok by (simp add: Cons strings_Map_Cons d)
        moreover have "strings_Map f (drop w s) = ascii_lower (drop w s)"
          using "1.IH" [of c w] d True ok rest "1.prems"(2) by (simp add: Cons)
        moreover have "take w s = ascii_lower (take w s)"
          using EncodeRune_lower [OF d ok] DecodeRuneInString_roundtrip(1) [OF d ok] True
          by (simp add: Cons "1.prems"(2))
        moreover have "ascii_lower s = ascii_lower (take w s) @ ascii_lower (drop w s)"
          by (simp add: ascii_lower_append [symmetric])
        ultimately show ?thesis
          by simp
      next
        case False
        then have "strings_Map f s = concat (map (\<lambda>c. EncodeRune (f c)) (runes s))"
          by (simp add: Cons strings_Map_Cons d)
        then show ?thesis
          using runes_lower [OF "1.prems"(1)] by (simp add: "1.prems"(2))
      qed
    qed
  qed
  then show "valid_utf8 s \<Longrightarrow> sqlower s = ascii_lower s"
    by (simp add: sqlower_def)
qed

text \<open>
  The verification at work. Let the lower-case table of Go map no rune above \<open>MaxASCII\<close> to a
  letter of \<open>temp\<close>, as it does. Take a selector with a non-empty name whose ASCII-lowercased
  form is not \<open>temp\<close>, and let the executor answer the count query as the engine does for the
  attached databases, none of which has, under the engine's \<^verbatim>\<open>LOWER\<close>, the folded form
  \<^verbatim>\<open>sqlower\<close> of the name. Then each name-listing operation returns no list and the error
  \<^verbatim>\<open>could not get ... names: unknown database '...'\<close>, whose message contains the name as it
  was requested; the count query, with the folded name as bound parameter, is the only
  query handed to the executor, and no query on a catalog table is.
\<close>

theorem unknown_schema_rejected:
  assumes "no_ascii_image (to_LowerCase U) ''temp''"
    and "(f, typ) \<in> set name_listing_operations"
    and "name s \<noteq> []"
    and "ascii_lower (name s) \<noteq> ''temp''"
    and "QueryRow_count db verify_q [IString (sqlower (name s))]
           = Inr (database_list_count attached (sqlower (name s)))"
    and "\<forall>n \<in> set attached. ascii_lower n \<noteq> sqlower (name s)"
  shows "f U s db =
           ([(verify_q, [IString (sqlower (name s))])],
            Inl (Errorf_could_not_get (typ @ '' names'') (Errorf_unknown_database (name s)))) \<and>
         Error F (Errorf_could_not_get (typ @ '' names'') (Errorf_unknown_database (name s)))
           = ''could not get '' @ typ @ '' names: unknown database ''
               @ [CHR 0x27] @ name s @ [CHR 0x27] \<and>
         sublist (name s)
           (Error F (Errorf_could_not_get (typ @ '' names'') (Errorf_unknown_database (name s)))) \<and>
         (\<forall>tableName. masterTableNames_q tableName \<notin> fst ` set (fst (f U s db)))"
proof -
  have "strings_ToLower U (name s) \<noteq> ''temp''"
    using assms(4) by (simp add: strings_ToLower_temp [OF assms(1)])
  moreover have "QueryRow_count db verify_q [IString (sqlower (name s))] = Inr 0"
    using assms(5) database_list_count_none [OF assms(6)] by simp
  then have "verify s db =
               ([(verify_q, [IString (sqlower (name s))])],
                Some (Errorf_unknown_database (name s)))"
    by (simp add: verify_def Let_def)
  ultimately have result: "f U s db =
      ([(verify_q, [IString (sqlower (name s))])],
       Inl (Errorf_could_not_get (typ @ '' names'') (Errorf_unknown_database (name s))))"
    using assms(3) by (simp add: name_listing_operations_are [OF assms(2)] masterTableNames_named)
  moreover have "masterTableNames_q tableName \<notin> fst ` set (fst (f U s db))" for tableName
    using verify_q_not_master [of tableName] by (auto simp: result)
  ultimately show ?thesis
    using sublist_unknown_database [of "name s" F "typ @ '' names''"] by simp
qed

text \<open>The name of an injection attempt, with the databases \<open>main\<close>, \<open>temp\<close> and \<open>Aux1\<close> attached.\<close>

theorem unknown_schema_rejected_witness:
  "no_ascii_image (to_LowerCase go_case_excerpt) ''temp'' \<and>
   (Schema_ViewNames, ''view'') \<in> set name_listing_operations \<and>
   name (DB ''); DROP TABLE users; --'') \<noteq> [] \<and>
   ascii_lower (name (DB ''); DROP TABLE users; --'')) \<noteq> ''temp'' \<and>
   sqlower (name (DB ''); DROP TABLE users; --'')) = ''); drop table users; --'' \<and>
   list_all (\<lambda>n. ascii_lower n \<noteq> ''); drop table users; --'') [''main'', ''temp'', ''Aux1''] \<and>
   Schema_ViewNames go_case_excerpt (DB ''); DROP TABLE users; --'') example_db =
     ([(verify_q, [IString ''); drop table users; --''])],
      Inl (Errorf_could_not_get ''view names''
             (Errorf_unknown_database ''); DROP TABLE users; --''))) \<and>
   sublist ''); DROP TABLE users; --''
     (Error example_fmt
        (Errorf_could_not_get ''view names''
           (Errorf_unknown_database ''); DROP TABLE users; --'')))"
proof -
  let ?s = "DB ''); DROP TABLE users; --''"
  have tab: "no_ascii_image (to_LowerCase go_case_excerpt) ''temp''"
    by (simp add: no_ascii_image_def go_case_excerpt_def MaxASCII_def)
  have op: "(Schema_ViewNames, ''view'') \<in> set name_listing_operations"
    by (simp add: name_listing_operations_def)
  have nonempty: "name ?s \<noteq> []"
    by (simp add: DB_def)
  have not_temp: "ascii_lower (name ?s) \<noteq> ''temp''"
    by (simp add: DB_def ascii_lower_def)
  have "isASCII (name ?s)"
    by (simp add: DB_def isASCII_def RuneSelf_def)
  then have "sqlower (name ?s) = ascii_lower (name ?s)"
    by (rule sqlower_ascii)
  also have "\<dots> = ''); drop table users; --''"
    by (simp add: DB_def ascii_lower_def char_of_eq_iff take_bit_eq_mod)
  finally have folded: "sqlower (name ?s) = ''); drop table users; --''" .
  have count: "QueryRow_count example_db verify_q [IString (sqlower (name ?s))]
                 = Inr (database_list_count [''main'', ''temp'', ''Aux1''] (sqlower (name ?s)))"
    by (simp add: example_db_def)
  have no_match: "\<forall>n \<in> set [''main'', ''temp'', ''Aux1'']. ascii_lower n \<noteq> sqlower (name ?s)"
    by (simp add: folded ascii_lower_def)
  from unknown_schema_rejected [OF tab op nonempty not_temp count no_match, of example_fmt]
    tab op nonempty not_temp folded no_match
  show ?thesis
    by (simp add: DB_def list_all_iff)
qed

text \<open>
  For a name that is valid UTF-8 the folded form is the ASCII-only case folding of the
  name, and the refusal is as the specification words it: a non-empty name that is not
  \<open>temp\<close> and equals no attached database under ASCII-only case folding is refused with
  the unknown-database error, and its name is spliced into no SQL text.
\<close>

lemma unknown_schema_rejected_valid_utf8:
  fixes F :: Fmt
  assumes "no_ascii_image (to_LowerCase U) ''temp''"
    and "(f, typ) \<in> set name_listing_operations"
    and "name s \<noteq> []"
    and "valid_utf8 (name s)"
    and "ascii_lower (name s) \<noteq> ''temp''"
    and "QueryRow_count db verify_q [IString (ascii_lower (name s))]
           = Inr (database_list_count attached (ascii_lower (name s)))"
    and "\<forall>n \<in> set attached. ascii_lower n \<noteq> ascii_lower (name s)"
  shows "f U s db =
           ([(verify_q, [IString (ascii_lower (name s))])],
            Inl (Errorf_could_not_get (typ @ '' names'') (Errorf_unknown_database (name s)))) \<and>
         (\<forall>tableName. masterTableNames_q tableName \<notin> fst ` set (fst (f U s db)))"
proof -
  have folded: "sqlower (name s) = ascii_lower (name s)"
    using assms(4) by (rule sqlower_valid_utf8)
  from assms(6,7) have
    "QueryRow_count db verify_q [IString (sqlower (name s))]
       = Inr (database_list_count attached (sqlower (name s)))"
    and "\<forall>n \<in> set attached. ascii_lower n \<noteq> sqlower (name s)"
    by (simp_all add: folded)
  note refused = unknown_schema_rejected [OF assms(1,2,3,5) this, unfolded folded]
  from refused [of F] show ?thesis
    by blast
qed

text \<open>
  Claim C1. A selector whose non-empty name is not \<open>temp\<close> and matches no attached database
  under ASCII-only case folding is to be refused with the unknown-database error before
  its name is spliced into any SQL text. \<^verbatim>\<open>sqlower\<close> folds rune by rune, though, and a byte that
  is not valid UTF-8 leaves it as U+FFFD: the name \<open>A\<close> followed by the byte \<open>FF\<close> has the ASCII
  fold \<open>a\<close>, \<open>FF\<close>, which is none of \<open>temp\<close>, \<open>main\<close> and \<open>a\<close>, U+FFFD, the folds of the attached
  names; yet the count query is asked for \<open>a\<close>, U+FFFD, finds that database, and
  \<^verbatim>\<open>TableNames\<close> goes on to issue the catalog query with the requested name spliced in,
  returning the error of the engine for it.
\<close>

theorem unknown_schema_invalid_utf8:
  "name (DB (''A'' @ [CHR 0xFF])) \<noteq> [] \<and>
   ascii_lower (name (DB (''A'' @ [CHR 0xFF]))) = ''a'' @ [CHR 0xFF] \<and>
   map ascii_lower [''main'', ''a'' @ [CHR 0xEF, CHR 0xBF, CHR 0xBD]]
     = [''main'', ''a'' @ [CHR 0xEF, CHR 0xBF, CHR 0xBD]] \<and>
   ''a'' @ [CHR 0xFF] \<notin> set [''temp'', ''main'', ''a'' @ [CHR 0xEF, CHR 0xBF, CHR 0xBD]] \<and>
   Schema_TableNames go_case_excerpt (DB (''A'' @ [CHR 0xFF])) replacement_db =
     ([(verify_q, [IString (''a'' @ [CHR 0xEF, CHR 0xBF, CHR 0xBD])]),
       (masterTableNames_q (''A'' @ [CHR 0xFF] @ ''.sqlite_master''), [IString ''table''])],
      Inl (Errorf_could_not_get ''table names'' (Driver ''unknown database'')))"
proof -
  let ?s = "DB (''A'' @ [CHR 0xFF])"
  have nm: "name ?s = ''A'' @ [CHR 0xFF]"
    by (simp add: DB_def)
  have folded: "ascii_lower (''A'' @ [CHR 0xFF]) = ''a'' @ [CHR 0xFF]"
    by (simp add: ascii_lower_def char_of_eq_iff take_bit_eq_mod)
  have attached: "map ascii_lower [''main'', ''a'' @ [CHR 0xEF, CHR 0xBF, CHR 0xBD]]
                    = [''main'', ''a'' @ [CHR 0xEF, CHR 0xBF, CHR 0xBD]]"
    by (simp add: ascii_lower_def)
  have tab: "no_ascii_image (to_LowerCase go_case_excerpt) ''temp''"
    by (simp add: no_ascii_image_def go_case_excerpt_def MaxASCII_def)
  have not_temp: "strings_ToLower go_case_excerpt (name ?s) \<noteq> ''temp''"
    unfolding strings_ToLower_temp [OF tab] nm folded by simp
  have count: "QueryRow_count replacement_db verify_q [IString (sqlower (name ?s))] = Inr 1"
    unfolding nm sqlower_invalid_byte
    by (simp add: replacement_db_def database_list_count_def ascii_lower_def)
  have "verify ?s replacement_db =
          ([(verify_q, [IString (''a'' @ [CHR 0xEF, CHR 0xBF, CHR 0xBD])])], None)"
    using count unfolding verify_def Let_def nm sqlower_invalid_byte by simp
  then have "masterTableNames go_case_excerpt ?s replacement_db ''table'' =
     ([(verify_q, [IString (''a'' @ [CHR 0xEF, CHR 0xBF, CHR 0xBD])]),
       (masterTableNames_q (''A'' @ [CHR 0xFF] @ ''.sqlite_master''), [IString ''table''])],
      Inl (Errorf_could_not_get ''table names'' (Driver ''unknown database'')))"
    using not_temp
    by (simp add: masterTableNames_named DB_def masterTableNames_query_def Let_def
        queryStrings_def replacement_db_def)
  then show ?thesis
    using folded attached by (simp add: Schema_TableNames_def DB_def)
qed

text \<open>
  Claim C7. For a selector whose name \<^verbatim>\<open>strings.ToLower\<close> maps to \<open>temp\<close>, each name-listing
  operation is the query of the fixed catalog table \<^verbatim>\<open>sqlite_temp_master\<close>: this one query
  is all it hands to the executor, so no count query verifies the name, and the text of
  the query is a constant, with no name of the caller in it. For every other selector no
  query on \<^verbatim>\<open>sqlite_temp_master\<close> is handed to the executor. When the lower-case table maps
  no rune above \<open>MaxASCII\<close> to a letter of \<open>temp\<close>, as Go's table does, the names that
  \<^verbatim>\<open>strings.ToLower\<close> maps to \<open>temp\<close> are the names that equal \<open>temp\<close> under ASCII-only case
  folding; none of them is empty.
\<close>

theorem temp_schema_routing:
  assumes "(f, typ) \<in> set name_listing_operations"
  shows "(strings_ToLower U (name s) = ''temp'' \<longrightarrow>
            f U s db = masterTableNames_query db typ ''sqlite_temp_master'' \<and>
            fst (f U s db) =
              [(''SELECT name FROM sqlite_temp_master WHERE type = ? ORDER BY name'',
                [IString typ])] \<and>
            verify_q \<notin> fst ` set (fst (f U s db))) \<and>
         (strings_ToLower U (name s) \<noteq> ''temp'' \<longrightarrow>
            ''SELECT name FROM sqlite_temp_master WHERE type = ? ORDER BY name''
              \<notin> fst ` set (fst (f U s db))) \<and>
         (no_ascii_image (to_LowerCase U) ''temp'' \<longrightarrow>
            (strings_ToLower U (name s) = ''temp'' \<longleftrightarrow> ascii_lower (name s) = ''temp'')) \<and>
         (ascii_lower (name s) = ''temp'' \<longrightarrow> name s \<noteq> [])"
proof -
  note f = name_listing_operations_are [OF assms]
  have temp_text: "masterTableNames_q ''sqlite_temp_master''
                = ''SELECT name FROM sqlite_temp_master WHERE type = ? ORDER BY name''"
    by (simp add: masterTableNames_q_def)
  show ?thesis
  proof (intro conjI impI)
    assume "strings_ToLower U (name s) = ''temp''"
    then show eq: "f U s db = masterTableNames_query db typ ''sqlite_temp_master''"
      by (simp add: f masterTableNames_temp)
    then show "fst (f U s db) =
                 [(''SELECT name FROM sqlite_temp_master WHERE type = ? ORDER BY name'',
                   [IString typ])]"
      by (simp add: masterTableNames_query_issued temp_text)
    show "verify_q \<notin> fst ` set (fst (f U s db))"
      using verify_q_not_master [of "''sqlite_temp_master''"]
      by (simp add: eq masterTableNames_query_issued)
  next
    assume other: "strings_ToLower U (name s) \<noteq> ''temp''"
    have "masterTableNames_q ''sqlite_temp_master'' \<notin> fst ` set (fst (masterTableNames U s db typ))"
    proof (cases "name s = []")
      case True
      then show ?thesis
        by (simp add: masterTableNames_unscoped masterTableNames_query_issued
            masterTableNames_q_inject)
    next
      case False
      then show ?thesis
        using other verify_q_not_master [of "''sqlite_temp_master''"]
          spliced_not_temp [of "name s"]
        by (auto simp: masterTableNames_named verify_issued masterTableNames_query_issued
            masterTableNames_q_inject split: option.splits)
    qed
    then show "''SELECT name FROM sqlite_temp_master WHERE type = ? ORDER BY name''
                 \<notin> fst ` set (fst (f U s db))"
      by (simp add: f temp_text)
  next
    assume "no_ascii_image (to_LowerCase U) ''temp''"
    then show "strings_ToLower U (name s) = ''temp'' \<longleftrightarrow> ascii_lower (name s) = ''temp''"
      by (rule strings_ToLower_temp)
  next
    assume "ascii_lower (name s) = ''temp''"
    then show "name s \<noteq> []"
      by (auto simp: ascii_lower_def)
  qed
qed

text \<open>The names \<open>TeMp\<close> and \<open>Aux1\<close>, with the excerpt of Go's case table.\<close>

theorem temp_schema_routing_witness:
  "(Schema_TableNames, ''table'') \<in> set name_listing_operations \<and>
   no_ascii_image (to_LowerCase go_case_excerpt) ''temp'' \<and>
   ascii_lower (name (DB ''TeMp'')) = ''temp'' \<and>
   strings_ToLower go_case_excerpt (name (DB ''TeMp'')) = ''temp'' \<and>
   fst (Schema_TableNames go_case_excerpt (DB ''TeMp'') example_db) =
     [(''SELECT name FROM sqlite_temp_master WHERE type = ? ORDER BY name'',
       [IString ''table''])] \<and>
   verify_q \<notin> fst ` set (fst (Schema_TableNames go_case_excerpt (DB ''TeMp'') example_db)) \<and>
   strings_ToLower go_case_excerpt (name (DB ''Aux1'')) \<noteq> ''temp'' \<and>
   ''SELECT name FROM sqlite_temp_master WHERE type = ? ORDER BY name''
     \<notin> fst ` set (fst (Schema_TableNames go_case_excerpt (DB ''Aux1'') example_db))"
proof -
  have tab: "no_ascii_image (to_LowerCase go_case_excerpt) ''temp''"
    by (simp add: no_ascii_image_def go_case_excerpt_def MaxASCII_def)
  have op: "(Schema_TableNames, ''table'') \<in> set name_listing_operations"
    by (simp add: name_listing_operations_def)
  have temp: "ascii_lower (name (DB ''TeMp'')) = ''temp''"
    by (simp add: DB_def ascii_lower_def char_of_eq_iff take_bit_eq_mod)
  have other: "ascii_lower (name (DB ''Aux1'')) \<noteq> ''temp''"
    by (simp add: DB_def ascii_lower_def)
  from temp_schema_routing [OF op, of go_case_excerpt "DB ''TeMp''" example_db]
    temp_schema_routing [OF op, of go_case_excerpt "DB ''Aux1''" example_db] tab op temp other
  show ?thesis
    by blast
qed

end
